theory Spec2Isabelle
  imports Complex_Main
begin

section \<open>Embedding of experiment3.py\<close>

text \<open>
  The script compares three UCB policies on a Gaussian bandit. NumPy's float64 values are
  modelled as real numbers, extended by the one non-finite value the script creates
  itself (\<open>np.inf\<close>, the index of an arm that was never pulled). The draws of
  \<open>np.random\<close> are inputs of the model: a function from the position of the draw to the
  value drawn. The module constants \<open>T\<close> and \<open>N_EXPERIMENTS\<close> are parameters of the
  model, so that statements hold for every horizon and every number of trials; the
  script's own values are \<open>T_const\<close> and \<open>N_EXPERIMENTS_const\<close>.
\<close>

subsection \<open>Values, errors and NumPy primitives\<close>

datatype error = ArgparseError | FileNotFoundError | OSError | KeyError | ValueError | IndexError

datatype npfloat = Num real | PInf

text \<open>The comparison \<open>x < y\<close> of two floats, none of them NaN.\<close>

fun fl_less :: "npfloat \<Rightarrow> npfloat \<Rightarrow> bool" where
  "fl_less (Num x) (Num y) = (x < y)"
| "fl_less (Num x) PInf = True"
| "fl_less PInf y = False"

text \<open>
  \<open>np.argmax\<close> scans from the left and moves to a later position only on a strictly
  greater value, so the first maximum wins; on an empty sequence it raises ValueError.
\<close>

fun argmax_scan :: "nat \<Rightarrow> npfloat \<Rightarrow> nat \<Rightarrow> npfloat list \<Rightarrow> nat" where
  "argmax_scan best v i [] = best"
| "argmax_scan best v i (x # xs) =
     (if fl_less v x then argmax_scan i x (Suc i) xs else argmax_scan best v (Suc i) xs)"

definition np_argmax :: "npfloat list \<Rightarrow> error + nat" where
  "np_argmax xs = (case xs of [] \<Rightarrow> Inl ValueError | x # rest \<Rightarrow> Inr (argmax_scan 0 x 1 rest))"

text \<open>Reading a Python list at a non-negative position: IndexError beyond its end.\<close>

definition py_index :: "'a list \<Rightarrow> nat \<Rightarrow> error + 'a" where
  "py_index xs i = (if i < length xs then Inr (xs ! i) else Inl IndexError)"

text \<open>A list comprehension whose element expression may raise.\<close>

primrec comprehension :: "(nat \<Rightarrow> error + 'b) \<Rightarrow> nat list \<Rightarrow> error + 'b list" where
  "comprehension f [] = Inr []"
| "comprehension f (a # as) =
     (case f a of
        Inl e \<Rightarrow> Inl e
      | Inr v \<Rightarrow> (case comprehension f as of Inl e \<Rightarrow> Inl e | Inr vs \<Rightarrow> Inr (v # vs)))"

text \<open>The loop \<open>for t in range(1, T + 1)\<close>: the body runs on each round in turn, and an
  exception raised by the body ends the loop.\<close>

primrec run_rounds :: "(nat \<Rightarrow> 's \<Rightarrow> error + 's) \<Rightarrow> nat list \<Rightarrow> 's \<Rightarrow> error + 's" where
  "run_rounds body [] s = Inr s"
| "run_rounds body (t # ts) s =
     (case body t s of Inl e \<Rightarrow> Inl e | Inr s' \<Rightarrow> run_rounds body ts s')"

definition T_const :: nat where
  "T_const = 1000000"

definition N_EXPERIMENTS_const :: nat where
  "N_EXPERIMENTS_const = 50"

subsection \<open>Policy state\<close>

text \<open>
  \<open>counts\<close>, \<open>emp_means\<close> and \<open>regret\<close> are the arrays of the two policies without a
  variance estimate; \<open>unknown_variance_ucb\<close> has \<open>emp_vars\<close> and \<open>M2\<close> in addition.
  \<open>counts\<close> holds floats that are whole numbers, modelled as naturals.
\<close>

record ucb_state =
  counts :: "nat list"
  emp_means :: "real list"
  regret :: "real list"

record unknown_state = ucb_state +
  emp_vars :: "real list"
  M2 :: "real list"

definition init_state :: "nat \<Rightarrow> nat \<Rightarrow> ucb_state" where
  "init_state T K =
     \<lparr>counts = replicate K 0, emp_means = replicate K 0, regret = replicate (T + 1) 0\<rparr>"

definition init_unknown :: "nat \<Rightarrow> nat \<Rightarrow> unknown_state" where
  "init_unknown T K =
     \<lparr>counts = replicate K 0, emp_means = replicate K 0, regret = replicate (T + 1) 0,
      emp_vars = replicate K 1, M2 = replicate K 0\<rparr>"

subsection \<open>known_variance_ucb\<close>

definition known_index :: "nat \<Rightarrow> real list \<Rightarrow> ucb_state \<Rightarrow> nat \<Rightarrow> error + npfloat" where
  "known_index T variances s a =
     (if counts s ! a = 0 then Inr PInf
      else case py_index variances a of
             Inl e \<Rightarrow> Inl e
           | Inr va \<Rightarrow>
               Inr (Num (emp_means s ! a + sqrt ((4 * va * ln (real T)) / real (counts s ! a)))))"

definition known_select :: "nat \<Rightarrow> nat \<Rightarrow> real list \<Rightarrow> ucb_state \<Rightarrow> error + nat" where
  "known_select T K variances s =
     (case comprehension (known_index T variances s) [0..<K] of
        Inl e \<Rightarrow> Inl e
      | Inr ucb_values \<Rightarrow> np_argmax ucb_values)"

definition known_round ::
  "nat \<Rightarrow> nat \<Rightarrow> real list \<Rightarrow> real list \<Rightarrow> nat \<Rightarrow> (nat \<Rightarrow> real) \<Rightarrow> nat \<Rightarrow> ucb_state \<Rightarrow> error + ucb_state"
where
  "known_round T K means variances best_arm rewards t s =
     (case known_select T K variances s of
        Inl e \<Rightarrow> Inl e
      | Inr arm \<Rightarrow>
          if \<not> (arm < length means \<and> arm < length variances) then Inl IndexError
          else
            let reward = rewards t;
                counts' = (counts s)[arm := counts s ! arm + 1];
                emp_means' = (emp_means s)
                  [arm := emp_means s ! arm + (reward - emp_means s ! arm) / real (counts' ! arm)]
            in if \<not> best_arm < length means then Inl IndexError
               else Inr (s\<lparr>counts := counts', emp_means := emp_means',
                          regret := (regret s)
                            [t := regret s ! (t - 1) + (means ! best_arm - means ! arm)]\<rparr>))"

definition known_variance_ucb ::
  "nat \<Rightarrow> nat \<Rightarrow> real list \<Rightarrow> real list \<Rightarrow> nat \<Rightarrow> (nat \<Rightarrow> real) \<Rightarrow> error + real list"
where
  "known_variance_ucb T K means variances best_arm rewards =
     (case run_rounds (known_round T K means variances best_arm rewards) [1..<T + 1]
             (init_state T K) of
        Inl e \<Rightarrow> Inl e
      | Inr s \<Rightarrow> Inr (regret s))"

subsection \<open>unknown_variance_ucb\<close>

definition correction :: "nat \<Rightarrow> nat \<Rightarrow> real" where
  "correction T n = max (1 - 2 * sqrt ((2 * ln (real T)) / real n)) (1 / 10 ^ 6)"

definition unknown_index :: "nat \<Rightarrow> unknown_state \<Rightarrow> nat \<Rightarrow> npfloat" where
  "unknown_index T s a =
     (if counts s ! a = 0 then PInf
      else
        let n = counts s ! a
        in Num (emp_means s ! a
                + sqrt (emp_vars s ! a) * sqrt ((4 * ln (real T)) / (real n * correction T n))))"

definition unknown_select :: "nat \<Rightarrow> nat \<Rightarrow> unknown_state \<Rightarrow> error + nat" where
  "unknown_select T K s = np_argmax (map (unknown_index T s) [0..<K])"

definition unknown_round ::
  "nat \<Rightarrow> nat \<Rightarrow> real list \<Rightarrow> real list \<Rightarrow> nat \<Rightarrow> (nat \<Rightarrow> real) \<Rightarrow> nat \<Rightarrow> unknown_state
     \<Rightarrow> error + unknown_state"
where
  "unknown_round T K means variances best_arm rewards t s =
     (case unknown_select T K s of
        Inl e \<Rightarrow> Inl e
      | Inr arm \<Rightarrow>
          if \<not> (arm < length means \<and> arm < length variances) then Inl IndexError
          else
            let reward = rewards t;
                counts' = (counts s)[arm := counts s ! arm + 1];
                n = counts' ! arm;
                delta = reward - emp_means s ! arm;
                emp_means' = (emp_means s)[arm := emp_means s ! arm + delta / real n];
                M2' = (M2 s)[arm := M2 s ! arm + delta * (reward - emp_means' ! arm)];
                emp_vars' = (if n > 1 then (emp_vars s)[arm := M2' ! arm / (real n - 1)]
                             else emp_vars s)
            in if \<not> best_arm < length means then Inl IndexError
               else Inr (s\<lparr>counts := counts', emp_means := emp_means',
                          regret := (regret s)
                            [t := regret s ! (t - 1) + (means ! best_arm - means ! arm)],
                          emp_vars := emp_vars', M2 := M2'\<rparr>))"

definition unknown_variance_ucb ::
  "nat \<Rightarrow> nat \<Rightarrow> real list \<Rightarrow> real list \<Rightarrow> nat \<Rightarrow> (nat \<Rightarrow> real) \<Rightarrow> error + real list"
where
  "unknown_variance_ucb T K means variances best_arm rewards =
     (case run_rounds (unknown_round T K means variances best_arm rewards) [1..<T + 1]
             (init_unknown T K) of
        Inl e \<Rightarrow> Inl e
      | Inr s \<Rightarrow> Inr (regret s))"

subsection \<open>standard_ucb\<close>

definition standard_index :: "nat \<Rightarrow> ucb_state \<Rightarrow> nat \<Rightarrow> npfloat" where
  "standard_index T s a =
     (if counts s ! a = 0 then PInf
      else Num (emp_means s ! a + sqrt ((4 * ln (real T)) / real (counts s ! a))))"

definition standard_select :: "nat \<Rightarrow> nat \<Rightarrow> ucb_state \<Rightarrow> error + nat" where
  "standard_select T K s = np_argmax (map (standard_index T s) [0..<K])"

definition standard_round ::
  "nat \<Rightarrow> nat \<Rightarrow> real list \<Rightarrow> real list \<Rightarrow> nat \<Rightarrow> (nat \<Rightarrow> real) \<Rightarrow> nat \<Rightarrow> ucb_state \<Rightarrow> error + ucb_state"
where
  "standard_round T K means variances best_arm rewards t s =
     (case standard_select T K s of
        Inl e \<Rightarrow> Inl e
      | Inr arm \<Rightarrow>
          if \<not> (arm < length means \<and> arm < length variances) then Inl IndexError
          else
            let reward = rewards t;
                counts' = (counts s)[arm := counts s ! arm + 1];
                emp_means' = (emp_means s)
                  [arm := emp_means s ! arm + (reward - emp_means s ! arm) / real (counts' ! arm)]
            in if \<not> best_arm < length means then Inl IndexError
               else Inr (s\<lparr>counts := counts', emp_means := emp_means',
                          regret := (regret s)
                            [t := regret s ! (t - 1) + (means ! best_arm - means ! arm)]\<rparr>))"

definition standard_ucb ::
  "nat \<Rightarrow> nat \<Rightarrow> real list \<Rightarrow> real list \<Rightarrow> nat \<Rightarrow> (nat \<Rightarrow> real) \<Rightarrow> error + real list"
where
  "standard_ucb T K means variances best_arm rewards =
     (case run_rounds (standard_round T K means variances best_arm rewards) [1..<T + 1]
             (init_state T K) of
        Inl e \<Rightarrow> Inl e
      | Inr s \<Rightarrow> Inr (regret s))"

subsection \<open>The main program\<close>

text \<open>
  \<open>parse_args\<close> stands for the argparse parser applied to a command line whose \<open>--K\<close>
  value already reads as an integer: \<open>--K\<close> has \<open>type=int\<close> and nothing else, so every
  integer is accepted, and \<open>--var\<close> is rejected outside its three choices.
\<close>

definition parse_args :: "int \<Rightarrow> string \<Rightarrow> error + int \<times> string" where
  "parse_args K var =
     (if var \<in> set [''low'', ''medium'', ''high''] then Inr (K, var) else Inl ArgparseError)"

text \<open>
  \<open>os.makedirs(path, exist_ok=True)\<close>: on the empty path it raises FileNotFoundError
  whatever the file system holds; on another path it returns when the directory exists or
  can be created, which \<open>can_create\<close> tells, and raises OSError otherwise. The script
  calls it on its constant \<open>OUTPUT_DIR\<close>, the empty string.
\<close>

definition OUTPUT_DIR :: string where
  "OUTPUT_DIR = []"

definition os_makedirs :: "(string \<Rightarrow> bool) \<Rightarrow> string \<Rightarrow> error + unit" where
  "os_makedirs can_create path =
     (if path = [] then Inl FileNotFoundError
      else if can_create path then Inr () else Inl OSError)"

definition variance_levels :: "string \<Rightarrow> (real \<times> real) option" where
  "variance_levels var =
     (if var = ''low'' then Some (1, 5)
      else if var = ''medium'' then Some (5, 20)
      else if var = ''high'' then Some (20, 50)
      else None)"

text \<open>\<open>np.random.uniform(lo, hi)\<close> from a draw \<open>u\<close> of the unit interval.\<close>

definition uniform :: "real \<Rightarrow> real \<Rightarrow> real \<Rightarrow> real" where
  "uniform lo hi u = lo + (hi - lo) * u"

text \<open>\<open>np.mean\<close> and \<open>np.std\<close> of a vector, and along axis 0 of a matrix given by its
  rows, each of \<open>w\<close> entries.\<close>

definition np_mean :: "real list \<Rightarrow> real" where
  "np_mean xs = sum_list xs / real (length xs)"

definition np_std :: "real list \<Rightarrow> real" where
  "np_std xs = sqrt (np_mean (map (\<lambda>x. \<bar>x - np_mean xs\<bar> ^ 2) xs))"

definition column :: "real list list \<Rightarrow> nat \<Rightarrow> real list" where
  "column rows t = map (\<lambda>row. row ! t) rows"

definition np_mean_axis0 :: "nat \<Rightarrow> real list list \<Rightarrow> real list" where
  "np_mean_axis0 w rows = map (\<lambda>t. np_mean (column rows t)) [0..<w]"

definition np_std_axis0 :: "nat \<Rightarrow> real list list \<Rightarrow> real list" where
  "np_std_axis0 w rows = map (\<lambda>t. np_std (column rows t)) [0..<w]"

record draws =
  mean_draws :: "nat \<Rightarrow> real"
  variance_draws :: "nat \<Rightarrow> real"
  known_rewards :: "nat \<Rightarrow> nat \<Rightarrow> real"
  unknown_rewards :: "nat \<Rightarrow> nat \<Rightarrow> real"
  standard_rewards :: "nat \<Rightarrow> nat \<Rightarrow> real"

record aggregated =
  known_avg :: "real list"
  known_std :: "real list"
  unknown_avg :: "real list"
  unknown_std :: "real list"
  standard_avg :: "real list"
  standard_std :: "real list"

text \<open>
  The script is a sequence of stages, each a function here: the generation of the
  instance (lines 87 to 89), the loop over \<open>range(N_EXPERIMENTS)\<close> that fills the three
  matrices of traces (lines 105 to 111) and the aggregation along axis 0 (lines 115 to
  120). \<open>range(K)\<close> is empty for \<open>K \<le> 0\<close>.
\<close>

definition generate_instance ::
  "int \<Rightarrow> real \<Rightarrow> real \<Rightarrow> draws \<Rightarrow> error + real list \<times> real list \<times> nat"
where
  "generate_instance K vmin vmax d =
     (let means = map (\<lambda>a. uniform 0 1 (mean_draws d a)) [0..<nat K];
          variances = map (\<lambda>a. uniform vmin vmax (variance_draws d a)) [0..<nat K]
      in (case np_argmax (map Num means) of
            Inl e \<Rightarrow> Inl e
          | Inr best_arm \<Rightarrow> Inr (means, variances, best_arm)))"

text \<open>One pass of the loop over \<open>range(N_EXPERIMENTS)\<close>: the three traces of trial \<open>i\<close>.\<close>

definition trial ::
  "nat \<Rightarrow> nat \<Rightarrow> real list \<Rightarrow> real list \<Rightarrow> nat \<Rightarrow> draws \<Rightarrow> nat
     \<Rightarrow> error + real list \<times> real list \<times> real list"
where
  "trial T K means variances best_arm d i =
     (case known_variance_ucb T K means variances best_arm (known_rewards d i) of
        Inl e \<Rightarrow> Inl e
      | Inr kr \<Rightarrow>
          (case unknown_variance_ucb T K means variances best_arm (unknown_rewards d i) of
             Inl e \<Rightarrow> Inl e
           | Inr ur \<Rightarrow>
               (case standard_ucb T K means variances best_arm (standard_rewards d i) of
                  Inl e \<Rightarrow> Inl e
                | Inr sr \<Rightarrow> Inr (kr, ur, sr))))"

definition run_trials ::
  "nat \<Rightarrow> nat \<Rightarrow> nat \<Rightarrow> real list \<Rightarrow> real list \<Rightarrow> nat \<Rightarrow> draws
     \<Rightarrow> error + (real list \<times> real list \<times> real list) list"
where
  "run_trials T N K means variances best_arm d =
     comprehension (trial T K means variances best_arm d) [0..<N]"

text \<open>Row \<open>i\<close> of each of the three matrices is the trace of trial \<open>i\<close>; each matrix is
  reduced along axis 0, which has \<open>T + 1\<close> columns.\<close>

definition aggregate :: "nat \<Rightarrow> (real list \<times> real list \<times> real list) list \<Rightarrow> aggregated" where
  "aggregate T rows =
     (let known_regrets = map fst rows;
          unknown_regrets = map (\<lambda>r. fst (snd r)) rows;
          standard_regrets = map (\<lambda>r. snd (snd r)) rows
      in \<lparr>known_avg = np_mean_axis0 (T + 1) known_regrets,
          known_std = np_std_axis0 (T + 1) known_regrets,
          unknown_avg = np_mean_axis0 (T + 1) unknown_regrets,
          unknown_std = np_std_axis0 (T + 1) unknown_regrets,
          standard_avg = np_mean_axis0 (T + 1) standard_regrets,
          standard_std = np_std_axis0 (T + 1) standard_regrets\<rparr>)"

text \<open>
  The script from its first line to line 120, in the order of its statements. Printing,
  the table and the plot are not modelled.
\<close>

definition run_experiment ::
  "nat \<Rightarrow> nat \<Rightarrow> (string \<Rightarrow> bool) \<Rightarrow> int \<Rightarrow> string \<Rightarrow> draws
     \<Rightarrow> error + (real list \<times> real list \<times> nat) \<times> aggregated"
where
  "run_experiment T N can_create K_arg var_arg d =
     (case parse_args K_arg var_arg of
        Inl e \<Rightarrow> Inl e
      | Inr (K, var) \<Rightarrow>
          (case os_makedirs can_create OUTPUT_DIR of
             Inl e \<Rightarrow> Inl e
           | Inr _ \<Rightarrow>
               (case variance_levels var of
                  None \<Rightarrow> Inl KeyError
                | Some (vmin, vmax) \<Rightarrow>
                    (case generate_instance K vmin vmax d of
                       Inl e \<Rightarrow> Inl e
                     | Inr (means, variances, best_arm) \<Rightarrow>
                         (case run_trials T N (nat K) means variances best_arm d of
                            Inl e \<Rightarrow> Inl e
                          | Inr rows \<Rightarrow>
                              Inr ((means, variances, best_arm), aggregate T rows))))))"

subsection \<open>Observations of a run\<close>

text \<open>
  The policies return the regret trace only. To speak about a run, \<open>pulls\<close> lists the arm
  chosen in each round, and \<open>state_after\<close> is the state when the first \<open>j\<close> rounds are
  done. Neither changes what the policies compute.
\<close>

primrec pulls :: "('s \<Rightarrow> error + nat) \<Rightarrow> (nat \<Rightarrow> 's \<Rightarrow> error + 's) \<Rightarrow> nat list \<Rightarrow> 's \<Rightarrow> nat list" where
  "pulls sel body [] s = []"
| "pulls sel body (t # ts) s =
     (case sel s of
        Inl e \<Rightarrow> []
      | Inr arm \<Rightarrow> arm # (case body t s of Inl e \<Rightarrow> [] | Inr s' \<Rightarrow> pulls sel body ts s'))"

definition known_pulls ::
  "nat \<Rightarrow> nat \<Rightarrow> real list \<Rightarrow> real list \<Rightarrow> nat \<Rightarrow> (nat \<Rightarrow> real) \<Rightarrow> nat list" where
  "known_pulls T K means variances best_arm rewards =
     pulls (known_select T K variances) (known_round T K means variances best_arm rewards)
       [1..<T + 1] (init_state T K)"

definition unknown_pulls ::
  "nat \<Rightarrow> nat \<Rightarrow> real list \<Rightarrow> real list \<Rightarrow> nat \<Rightarrow> (nat \<Rightarrow> real) \<Rightarrow> nat list" where
  "unknown_pulls T K means variances best_arm rewards =
     pulls (unknown_select T K) (unknown_round T K means variances best_arm rewards)
       [1..<T + 1] (init_unknown T K)"

definition standard_pulls ::
  "nat \<Rightarrow> nat \<Rightarrow> real list \<Rightarrow> real list \<Rightarrow> nat \<Rightarrow> (nat \<Rightarrow> real) \<Rightarrow> nat list" where
  "standard_pulls T K means variances best_arm rewards =
     pulls (standard_select T K) (standard_round T K means variances best_arm rewards)
       [1..<T + 1] (init_state T K)"

definition unknown_state_after ::
  "nat \<Rightarrow> nat \<Rightarrow> real list \<Rightarrow> real list \<Rightarrow> nat \<Rightarrow> (nat \<Rightarrow> real) \<Rightarrow> nat \<Rightarrow> error + unknown_state"
where
  "unknown_state_after T K means variances best_arm rewards j =
     run_rounds (unknown_round T K means variances best_arm rewards) [1..<j + 1]
       (init_unknown T K)"

definition standard_state_after ::
  "nat \<Rightarrow> nat \<Rightarrow> real list \<Rightarrow> real list \<Rightarrow> nat \<Rightarrow> (nat \<Rightarrow> real) \<Rightarrow> nat \<Rightarrow> error + ucb_state"
where
  "standard_state_after T K means variances best_arm rewards j =
     run_rounds (standard_round T K means variances best_arm rewards) [1..<j + 1]
       (init_state T K)"

text \<open>The trace that a list of chosen arms determines: round \<open>t\<close> adds the gap of the arm
  chosen in it to the entry of round \<open>t - 1\<close>.\<close>

primrec accumulate :: "real list \<Rightarrow> nat \<Rightarrow> nat \<Rightarrow> nat list \<Rightarrow> real list \<Rightarrow> real list" where
  "accumulate means best_arm t [] reg = reg"
| "accumulate means best_arm t (arm # arms) reg =
     accumulate means best_arm (Suc t) arms
       (reg[t := reg ! (t - 1) + (means ! best_arm - means ! arm)])"

definition regret_of_pulls :: "nat \<Rightarrow> real list \<Rightarrow> nat \<Rightarrow> nat list \<Rightarrow> real list" where
  "regret_of_pulls T means best_arm arms = accumulate means best_arm 1 arms (replicate (T + 1) 0)"

text \<open>The rewards an arm received, in the order of the rounds \<open>t0, t0 + 1, ...\<close>.\<close>

primrec arm_rewards :: "nat \<Rightarrow> (nat \<Rightarrow> real) \<Rightarrow> nat \<Rightarrow> nat list \<Rightarrow> real list" where
  "arm_rewards a rewards t0 [] = []"
| "arm_rewards a rewards t0 (arm # arms) =
     (if arm = a then rewards t0 # arm_rewards a rewards (Suc t0) arms
      else arm_rewards a rewards (Suc t0) arms)"

text \<open>The unbiased sample variance of at least two values.\<close>

definition sample_variance :: "real list \<Rightarrow> real" where
  "sample_variance xs = (\<Sum>x\<leftarrow>xs. (x - np_mean xs) ^ 2) / (real (length xs) - 1)"

subsection \<open>The control flow of section 4.2 of the specification\<close>

text \<open>
  Written from the specification's description of the standard policy, with the
  exploration width of an arm that was pulled before as the parameter \<open>width\<close>: an arm
  never pulled has index positive infinity, any other arm \<open>emp_means[a] + width\<close>; the arm
  of maximal index is selected, the first one on ties; a reward is drawn; the count goes up
  by one, the mean is updated incrementally, and the regret entry of the round is the
  previous entry plus the gap of the selected arm. Used only to compare the two policies
  of the source that the specification describes by it.
\<close>

definition spec_ucb_round ::
  "(ucb_state \<Rightarrow> nat \<Rightarrow> real) \<Rightarrow> nat \<Rightarrow> real list \<Rightarrow> real list \<Rightarrow> nat \<Rightarrow> (nat \<Rightarrow> real) \<Rightarrow> nat
     \<Rightarrow> ucb_state \<Rightarrow> error + ucb_state"
where
  "spec_ucb_round width K means variances best_arm rewards t s =
     (case np_argmax
             (map (\<lambda>a. if counts s ! a = 0 then PInf else Num (emp_means s ! a + width s a))
                [0..<K]) of
        Inl e \<Rightarrow> Inl e
      | Inr arm \<Rightarrow>
          if \<not> (arm < length means \<and> arm < length variances \<and> best_arm < length means)
          then Inl IndexError
          else
            Inr (s\<lparr>counts := (counts s)[arm := counts s ! arm + 1],
                   emp_means := (emp_means s)
                     [arm := emp_means s ! arm
                        + (rewards t - emp_means s ! arm) / real (counts s ! arm + 1)],
                   regret := (regret s)
                     [t := regret s ! (t - 1) + (means ! best_arm - means ! arm)]\<rparr>))"

definition spec_ucb_policy ::
  "(ucb_state \<Rightarrow> nat \<Rightarrow> real) \<Rightarrow> nat \<Rightarrow> nat \<Rightarrow> real list \<Rightarrow> real list \<Rightarrow> nat \<Rightarrow> (nat \<Rightarrow> real)
     \<Rightarrow> error + real list"
where
  "spec_ucb_policy width T K means variances best_arm rewards =
     (case run_rounds (spec_ucb_round width K means variances best_arm rewards) [1..<T + 1]
             (init_state T K) of
        Inl e \<Rightarrow> Inl e
      | Inr s \<Rightarrow> Inr (regret s))"

subsection \<open>The contract of one round\<close>

text \<open>
  What the three loop bodies have in common, stated once for the proofs: from a
  well-formed state the selection returns an arm below \<open>K\<close>, the first arm never pulled
  if there is one, and the body returns a well-formed state in which that arm's count is
  one higher and the regret entry of the round is the previous entry plus the arm's gap.
\<close>

definition round_spec ::
  "nat \<Rightarrow> real list \<Rightarrow> nat \<Rightarrow> ('s \<Rightarrow> bool) \<Rightarrow> ('s \<Rightarrow> nat list) \<Rightarrow> ('s \<Rightarrow> real list)
     \<Rightarrow> ('s \<Rightarrow> error + nat) \<Rightarrow> (nat \<Rightarrow> 's \<Rightarrow> error + 's) \<Rightarrow> bool"
where
  "round_spec K means best_arm good cnt reg sel body \<longleftrightarrow>
     (\<forall>t s. good s \<longrightarrow>
        length (cnt s) = K \<and>
        (\<exists>arm s'. sel s = Inr arm \<and> body t s = Inr s' \<and> arm < K \<and> good s'
           \<and> cnt s' = (cnt s)[arm := Suc (cnt s ! arm)]
           \<and> reg s' = (reg s)[t := reg s ! (t - 1) + (means ! best_arm - means ! arm)]
           \<and> (\<forall>a<K. cnt s ! a = 0 \<and> (\<forall>b<a. cnt s ! b \<noteq> 0) \<longrightarrow> arm = a)))"

section \<open>Properties\<close>

subsection \<open>NumPy primitives\<close>

lemma np_argmax_Nil: "np_argmax [] = Inl ValueError"
  by (simp add: np_argmax_def)

subsection \<open>Configuration errors\<close>

text \<open>
  Every run that the parser lets through stops at line 17, where \<open>os.makedirs\<close> is
  called on the empty path: whatever the arm count, no instance is generated and no trial
  runs.
\<close>

lemma run_experiment_stops:
  "run_experiment T N can_create K var d =
     Inl (if var \<in> set [''low'', ''medium'', ''high''] then FileNotFoundError
          else ArgparseError)"
  by (simp add: run_experiment_def parse_args_def os_makedirs_def OUTPUT_DIR_def)

text \<open>
  The parser does not look at the sign of the arm count: \<open>--K 0\<close> is let through, and the
  run that follows ends as the run with \<open>--K 5\<close> does, in the FileNotFoundError of
  \<open>os.makedirs\<close>, which is not the parser's error and says nothing about the arm count.
\<close>

theorem nonpositive_arm_count_is_not_rejected:
  "parse_args 0 ''low'' = Inr (0, ''low'')
   \<and> run_experiment T_const N_EXPERIMENTS_const (\<lambda>path. True) 0 ''low''
       \<lparr>mean_draws = \<lambda>a. 0, variance_draws = \<lambda>a. 0, known_rewards = \<lambda>i t. 0,
        unknown_rewards = \<lambda>i t. 0, standard_rewards = \<lambda>i t. 0\<rparr> = Inl FileNotFoundError
   \<and> run_experiment T_const N_EXPERIMENTS_const (\<lambda>path. True) 0 ''low''
       \<lparr>mean_draws = \<lambda>a. 0, variance_draws = \<lambda>a. 0, known_rewards = \<lambda>i t. 0,
        unknown_rewards = \<lambda>i t. 0, standard_rewards = \<lambda>i t. 0\<rparr> \<noteq> Inl ArgparseError
   \<and> run_experiment T_const N_EXPERIMENTS_const (\<lambda>path. True) 0 ''low''
       \<lparr>mean_draws = \<lambda>a. 0, variance_draws = \<lambda>a. 0, known_rewards = \<lambda>i t. 0,
        unknown_rewards = \<lambda>i t. 0, standard_rewards = \<lambda>i t. 0\<rparr> =
     run_experiment T_const N_EXPERIMENTS_const (\<lambda>path. True) 5 ''low''
       \<lparr>mean_draws = \<lambda>a. 0, variance_draws = \<lambda>a. 0, known_rewards = \<lambda>i t. 0,
        unknown_rewards = \<lambda>i t. 0, standard_rewards = \<lambda>i t. 0\<rparr>"
  by (simp add: run_experiment_def parse_args_def os_makedirs_def OUTPUT_DIR_def)

text \<open>
  C9. A variance regime outside the three choices is rejected by the parser before
  anything else runs, whatever the arm count. The arm count is not validated: with a
  known regime the parser accepts every integer \<open>K\<close>. With \<open>K \<le> 0\<close> the program still
  ends in an error and returns no instance and no traces, and the generation of the
  instance raises ValueError, \<open>np.argmax\<close> having no mean to look at, so that no trial can
  start.
\<close>

theorem configuration_errors:
  "(var \<notin> set [''low'', ''medium'', ''high''] \<longrightarrow>
      run_experiment T N can_create K var d = Inl ArgparseError)
   \<and> (var \<in> set [''low'', ''medium'', ''high''] \<longrightarrow> parse_args K var = Inr (K, var))
   \<and> (K \<le> 0 \<longrightarrow>
        (\<exists>e. run_experiment T N can_create K var d = Inl e)
        \<and> generate_instance K vmin vmax d = Inl ValueError)"
  by (simp add: run_experiment_def parse_args_def os_makedirs_def OUTPUT_DIR_def
      generate_instance_def np_argmax_Nil)

theorem configuration_errors_witness:
  "run_experiment T_const N_EXPERIMENTS_const (\<lambda>path. True) 4 ''extreme''
     \<lparr>mean_draws = \<lambda>a. 0, variance_draws = \<lambda>a. 0, known_rewards = \<lambda>i t. 0,
      unknown_rewards = \<lambda>i t. 0, standard_rewards = \<lambda>i t. 0\<rparr> = Inl ArgparseError
   \<and> parse_args (- 3) ''high'' = Inr (- 3, ''high'')
   \<and> (\<exists>e. run_experiment T_const N_EXPERIMENTS_const (\<lambda>path. True) 0 ''low''
            \<lparr>mean_draws = \<lambda>a. 0, variance_draws = \<lambda>a. 0, known_rewards = \<lambda>i t. 0,
             unknown_rewards = \<lambda>i t. 0, standard_rewards = \<lambda>i t. 0\<rparr> = Inl e)
   \<and> generate_instance 0 1 5
       \<lparr>mean_draws = \<lambda>a. 0, variance_draws = \<lambda>a. 0, known_rewards = \<lambda>i t. 0,
        unknown_rewards = \<lambda>i t. 0, standard_rewards = \<lambda>i t. 0\<rparr> = Inl ValueError"
  using configuration_errors [of "''extreme''" T_const N_EXPERIMENTS_const "\<lambda>path. True" 4
      "\<lparr>mean_draws = \<lambda>a. 0, variance_draws = \<lambda>a. 0, known_rewards = \<lambda>i t. 0,
        unknown_rewards = \<lambda>i t. 0, standard_rewards = \<lambda>i t. 0\<rparr>" 1 5]
    configuration_errors [of "''high''" T_const N_EXPERIMENTS_const "\<lambda>path. True" "- 3"
      "\<lparr>mean_draws = \<lambda>a. 0, variance_draws = \<lambda>a. 0, known_rewards = \<lambda>i t. 0,
        unknown_rewards = \<lambda>i t. 0, standard_rewards = \<lambda>i t. 0\<rparr>" 1 5]
    configuration_errors [of "''low''" T_const N_EXPERIMENTS_const "\<lambda>path. True" 0
      "\<lparr>mean_draws = \<lambda>a. 0, variance_draws = \<lambda>a. 0, known_rewards = \<lambda>i t. 0,
        unknown_rewards = \<lambda>i t. 0, standard_rewards = \<lambda>i t. 0\<rparr>" 1 5]
  by simp

lemma fl_less_irrefl: "\<not> fl_less x x"
  by (cases x) simp_all

lemma fl_less_trans: "fl_less x y \<Longrightarrow> fl_less y z \<Longrightarrow> fl_less x z"
  by (cases x; cases y; cases z) simp_all

lemma fl_less_total: "\<not> fl_less x y \<Longrightarrow> \<not> fl_less y x \<Longrightarrow> x = y"
  by (cases x; cases y) simp_all

lemma fl_less_below: "\<not> fl_less v y \<Longrightarrow> fl_less v x \<Longrightarrow> fl_less y x"
  by (cases x; cases y; cases v) simp_all

lemma fl_less_PInf: "x \<noteq> PInf \<Longrightarrow> fl_less x PInf"
  by (cases x) simp_all

text \<open>The scan over the rest of a list, from a candidate that is the first maximum of the
  part already seen, ends on the first maximum of the whole list.\<close>

lemma argmax_scan_first_max:
  assumes "drop i ys = xs" and "best < i" and "ys ! best = v"
    and "\<forall>k<i. \<not> fl_less v (ys ! k)" and "\<forall>k<best. fl_less (ys ! k) v"
    and "i \<le> length ys"
  shows "argmax_scan best v i xs < length ys
    \<and> (\<forall>k<length ys. \<not> fl_less (ys ! argmax_scan best v i xs) (ys ! k))
    \<and> (\<forall>k<argmax_scan best v i xs. fl_less (ys ! k) (ys ! argmax_scan best v i xs))"
  using assms
proof (induction xs arbitrary: best v i)
  case Nil
  then have "length ys = i" by simp
  with Nil show ?case by simp
next
  case (Cons x xs)
  from Cons.prems(1) have i: "i < length ys"
    by (metis drop_all list.distinct(1) not_le)
  from Cons.prems(1) i have x: "ys ! i = x" and rest: "drop (Suc i) ys = xs"
    by (simp_all add: Cons_nth_drop_Suc [symmetric])
  show ?case
  proof (cases "fl_less v x")
    case True
    have a: "\<forall>k<Suc i. \<not> fl_less x (ys ! k)"
    proof (intro allI impI)
      fix k assume "k < Suc i"
      then consider "k < i" | "k = i" by linarith
      then show "\<not> fl_less x (ys ! k)"
      proof cases
        case 1
        with Cons.prems(4) have "\<not> fl_less v (ys ! k)" by simp
        with True show ?thesis using fl_less_trans by blast
      next
        case 2
        with x show ?thesis by (simp add: fl_less_irrefl)
      qed
    qed
    have b: "\<forall>k<i. fl_less (ys ! k) x"
      using Cons.prems(4) True fl_less_below by blast
    from Cons.IH [OF rest _ x a b] i True show ?thesis by simp
  next
    case False
    have a: "\<forall>k<Suc i. \<not> fl_less v (ys ! k)"
      using Cons.prems(4) False x by (auto simp: less_Suc_eq)
    from Cons.IH [OF rest _ Cons.prems(3) a Cons.prems(5)] Cons.prems(2) i False
    show ?thesis by simp
  qed
qed

lemma np_argmax_first_max:
  assumes "xs \<noteq> []"
  shows "\<exists>r. np_argmax xs = Inr r \<and> r < length xs
    \<and> (\<forall>k<length xs. \<not> fl_less (xs ! r) (xs ! k)) \<and> (\<forall>k<r. fl_less (xs ! k) (xs ! r))"
proof -
  from assms obtain x rest where xs: "xs = x # rest" by (cases xs) auto
  have "argmax_scan 0 x 1 rest < length xs
    \<and> (\<forall>k<length xs. \<not> fl_less (xs ! argmax_scan 0 x 1 rest) (xs ! k))
    \<and> (\<forall>k<argmax_scan 0 x 1 rest. fl_less (xs ! k) (xs ! argmax_scan 0 x 1 rest))"
    by (rule argmax_scan_first_max) (simp_all add: xs fl_less_irrefl)
  then show ?thesis by (simp add: np_argmax_def xs)
qed

lemma first_max_unique:
  assumes "r < length xs" and "j < length xs"
    and "\<forall>k<length xs. \<not> fl_less (xs ! r) (xs ! k)" and "\<forall>k<r. fl_less (xs ! k) (xs ! r)"
    and "\<forall>k<length xs. \<not> fl_less (xs ! j) (xs ! k)" and "\<forall>k<j. fl_less (xs ! k) (xs ! j)"
  shows "r = j"
proof (rule ccontr)
  assume "r \<noteq> j"
  then consider "r < j" | "j < r" by linarith
  then show False
  proof cases
    case 1
    with assms(6) have "fl_less (xs ! r) (xs ! j)" by simp
    with assms(2,3) show False by simp
  next
    case 2
    with assms(4) have "fl_less (xs ! j) (xs ! r)" by simp
    with assms(1,5) show False by simp
  qed
qed

lemma np_argmax_eqI:
  assumes "j < length xs" and "\<forall>k<length xs. \<not> fl_less (xs ! j) (xs ! k)"
    and "\<forall>k<j. fl_less (xs ! k) (xs ! j)"
  shows "np_argmax xs = Inr j"
proof -
  from assms(1) have "xs \<noteq> []" by auto
  from np_argmax_first_max [OF this] obtain r where r: "np_argmax xs = Inr r" "r < length xs"
    "\<forall>k<length xs. \<not> fl_less (xs ! r) (xs ! k)" "\<forall>k<r. fl_less (xs ! k) (xs ! r)"
    by blast
  from first_max_unique [OF r(2) assms(1) r(3,4) assms(2,3)] r(1) show ?thesis by simp
qed

text \<open>The first arm whose index is infinite is selected.\<close>

lemma np_argmax_first_PInf:
  assumes "j < length xs" and "xs ! j = PInf" and "\<forall>k<j. xs ! k \<noteq> PInf"
  shows "np_argmax xs = Inr j"
  using assms by (intro np_argmax_eqI) (simp_all add: fl_less_PInf)

subsection \<open>Loops and traces\<close>

lemma comprehension_total:
  "(\<And>a. a \<in> set as \<Longrightarrow> f a = Inr (g a)) \<Longrightarrow> comprehension f as = Inr (map g as)"
  by (induction as) simp_all

lemma run_rounds_append:
  "run_rounds body (ts @ us) s =
     (case run_rounds body ts s of Inl e \<Rightarrow> Inl e | Inr s' \<Rightarrow> run_rounds body us s')"
  by (induction ts arbitrary: s) (simp_all split: sum.splits)

lemma pulls_append:
  "run_rounds body ts s = Inr s' \<Longrightarrow> length (pulls sel body ts s) = length ts
    \<Longrightarrow> pulls sel body (ts @ us) s = pulls sel body ts s @ pulls sel body us s'"
  by (induction ts arbitrary: s) (auto split: sum.splits)

lemma run_rounds_invariant:
  assumes "run_rounds body ts s = Inr s'" and "P s"
    and "\<And>t u u'. P u \<Longrightarrow> body t u = Inr u' \<Longrightarrow> P u'"
  shows "P s'"
  using assms(1,2)
proof (induction ts arbitrary: s)
  case Nil
  then show ?case by simp
next
  case (Cons t ts)
  then show ?case by (auto split: sum.splits intro: assms(3))
qed

lemma length_accumulate: "length (accumulate means best_arm t arms reg) = length reg"
  by (induction arms arbitrary: t reg) simp_all

lemma accumulate_nth:
  assumes "1 \<le> t0" and "t0 + length arms \<le> length reg"
  shows "(\<forall>t<t0. accumulate means best_arm t0 arms reg ! t = reg ! t)
    \<and> (\<forall>i<length arms.
          accumulate means best_arm t0 arms reg ! (t0 + i) =
            accumulate means best_arm t0 arms reg ! (t0 + i - 1)
              + (means ! best_arm - means ! (arms ! i)))"
  using assms
proof (induction arms arbitrary: t0 reg)
  case Nil
  then show ?case by simp
next
  case (Cons arm arms)
  let ?reg = "reg[t0 := reg ! (t0 - 1) + (means ! best_arm - means ! arm)]"
  let ?acc = "accumulate means best_arm (Suc t0) arms ?reg"
  from Cons.prems have len: "Suc t0 + length arms \<le> length ?reg" by simp
  from Cons.IH [OF _ len]
  have low: "\<forall>t<Suc t0. ?acc ! t = ?reg ! t"
    and up: "\<forall>i<length arms. ?acc ! (Suc t0 + i) = ?acc ! (Suc t0 + i - 1)
               + (means ! best_arm - means ! (arms ! i))"
    by simp_all
  have "\<forall>t<t0. ?acc ! t = reg ! t"
    using low by simp
  moreover have "?acc ! (t0 + i) = ?acc ! (t0 + i - 1)
      + (means ! best_arm - means ! ((arm # arms) ! i))" if "i < length (arm # arms)" for i
  proof (cases i)
    case 0
    from Cons.prems have "t0 < length reg" "t0 - 1 \<noteq> t0" "t0 - 1 < Suc t0" by simp_all
    with low 0 show ?thesis by simp
  next
    case (Suc i')
    with that up show ?thesis by simp
  qed
  ultimately show ?case by simp
qed

lemma run_rounds_spec:
  assumes "round_spec K means best_arm good cnt reg sel body" and "good s"
  shows "\<exists>s'. run_rounds body [t0..<t0 + n] s = Inr s' \<and> good s'
    \<and> length (pulls sel body [t0..<t0 + n] s) = n
    \<and> (\<forall>a\<in>set (pulls sel body [t0..<t0 + n] s). a < K)
    \<and> reg s' = accumulate means best_arm t0 (pulls sel body [t0..<t0 + n] s) (reg s)"
  using assms(2)
proof (induction n arbitrary: t0 s)
  case 0
  then show ?case by simp
next
  case (Suc n)
  from assms(1) Suc.prems obtain arm u where
    u: "sel s = Inr arm" "body t0 s = Inr u" "arm < K" "good u"
      "reg u = (reg s)[t0 := reg s ! (t0 - 1) + (means ! best_arm - means ! arm)]"
    unfolding round_spec_def by blast
  have ts: "[t0..<t0 + Suc n] = t0 # [Suc t0..<Suc t0 + n]"
    by (simp add: upt_conv_Cons)
  from Suc.IH [OF u(4), of "Suc t0"] u show ?case
    unfolding ts by auto
qed

text \<open>While some arm has never been pulled, the loop pulls the first such arm.\<close>

lemma pulls_bootstrap:
  assumes "round_spec K means best_arm good cnt reg sel body"
  shows "good s \<Longrightarrow> cnt s = replicate j (Suc 0) @ replicate (K - j) 0 \<Longrightarrow> j \<le> K \<Longrightarrow> K \<le> T
    \<Longrightarrow> take (K - j) (pulls sel body [Suc j..<Suc T] s) = [j..<K]"
proof (induction "K - j" arbitrary: j s)
  case 0
  then show ?case by simp
next
  case (Suc d)
  then have j: "j < K" "j < T" by simp_all
  from Suc.prems(2) j have "cnt s ! j = 0" "\<forall>b<j. cnt s ! b \<noteq> 0"
    by (simp_all add: nth_append)
  with assms Suc.prems(1) j obtain u where
    u: "sel s = Inr j" "body (Suc j) s = Inr u" "good u" "cnt u = (cnt s)[j := Suc (cnt s ! j)]"
    unfolding round_spec_def by blast
  from j have "replicate (K - j) (0::nat) = 0 # replicate (K - Suc j) 0"
    by (metis Suc_diff_Suc replicate_Suc)
  with Suc.prems(2) u(4) \<open>cnt s ! j = 0\<close>
  have "cnt u = (replicate j (Suc 0) @ 0 # replicate (K - Suc j) 0)[j := Suc 0]"
    by simp
  then have cu: "cnt u = replicate (Suc j) (Suc 0) @ replicate (K - Suc j) 0"
    by (simp add: list_update_append replicate_append_same)
  from Suc.hyps(2) have d: "d = K - Suc j" by simp
  from j have ts: "[Suc j..<Suc T] = Suc j # [Suc (Suc j)..<Suc T]"
    by (simp add: upt_conv_Cons)
  from j have kj: "K - j = Suc (K - Suc j)" and jk: "[j..<K] = j # [Suc j..<K]"
    by (simp_all add: upt_conv_Cons)
  from Suc.hyps(1) [OF d u(3) cu] j Suc.prems(4)
  have "take (K - Suc j) (pulls sel body [Suc (Suc j)..<Suc T] u) = [Suc j..<K]" by simp
  with u show ?case
    unfolding ts kj jk by simp
qed

subsection \<open>The three loop bodies meet the contract\<close>

lemma select_first_unpulled:
  assumes "0 < K" and "\<forall>a<K. (idx a = PInf) = (cnt ! a = 0)"
  shows "\<exists>arm. np_argmax (map idx [0..<K]) = Inr arm \<and> arm < K
    \<and> (\<forall>a<K. cnt ! a = 0 \<and> (\<forall>b<a. cnt ! b \<noteq> 0) \<longrightarrow> arm = a)"
proof -
  from assms(1) have "map idx [0..<K] \<noteq> []" by simp
  from np_argmax_first_max [OF this] obtain arm where
    arm: "np_argmax (map idx [0..<K]) = Inr arm" "arm < K" by auto
  have "arm = a" if "a < K" "cnt ! a = 0" "\<forall>b<a. cnt ! b \<noteq> 0" for a
  proof -
    have "np_argmax (map idx [0..<K]) = Inr a"
      using that assms(2) by (intro np_argmax_first_PInf) simp_all
    with arm show ?thesis by simp
  qed
  with arm show ?thesis by blast
qed


lemma known_select_eq:
  assumes "K \<le> length variances"
  shows "known_select T K variances s =
    np_argmax (map (\<lambda>a. if counts s ! a = 0 then PInf
                        else Num (emp_means s ! a
                               + sqrt ((4 * variances ! a * ln (real T)) / real (counts s ! a))))
                 [0..<K])"
proof -
  have "comprehension (known_index T variances s) [0..<K] =
    Inr (map (\<lambda>a. if counts s ! a = 0 then PInf
                   else Num (emp_means s ! a
                          + sqrt ((4 * variances ! a * ln (real T)) / real (counts s ! a))))
           [0..<K])"
    using assms by (intro comprehension_total) (simp add: known_index_def py_index_def)
  then show ?thesis by (simp add: known_select_def)
qed


lemma known_round_spec:
  assumes "0 < K" and "length means = K" and "length variances = K" and "best_arm < K"
  shows "round_spec K means best_arm
    (\<lambda>s. length (counts s) = K \<and> length (emp_means s) = K) counts regret
    (known_select T K variances) (known_round T K means variances best_arm rewards)"
  unfolding round_spec_def
proof (intro allI impI conjI)
  fix t :: nat and s :: ucb_state
  assume good: "length (counts s) = K \<and> length (emp_means s) = K"
  then show "length (counts s) = K" by simp
  let ?idx = "\<lambda>a. if counts s ! a = 0 then PInf
                   else Num (emp_means s ! a
                          + sqrt ((4 * variances ! a * ln (real T)) / real (counts s ! a)))"
  have "\<forall>a<K. (?idx a = PInf) = (counts s ! a = 0)" by simp
  from select_first_unpulled [OF assms(1) this] obtain arm where
    arm: "np_argmax (map ?idx [0..<K]) = Inr arm" "arm < K"
      "\<forall>a<K. counts s ! a = 0 \<and> (\<forall>b<a. counts s ! b \<noteq> 0) \<longrightarrow> arm = a"
    by blast
  from arm(1) assms(3) have sel: "known_select T K variances s = Inr arm"
    by (simp add: known_select_eq)
  obtain s' where body: "known_round T K means variances best_arm rewards t s = Inr s'"
      "counts s' = (counts s)[arm := Suc (counts s ! arm)]"
      "regret s' = (regret s)[t := regret s ! (t - 1) + (means ! best_arm - means ! arm)]"
      "length (emp_means s') = K"
    using sel arm(2) assms(2-4) good by (simp add: known_round_def Let_def)
  from body(2) good have "length (counts s') = K" by simp
  with sel body arm(2,3)
  show "\<exists>arm s'. known_select T K variances s = Inr arm
      \<and> known_round T K means variances best_arm rewards t s = Inr s' \<and> arm < K
      \<and> (length (counts s') = K \<and> length (emp_means s') = K)
      \<and> counts s' = (counts s)[arm := Suc (counts s ! arm)]
      \<and> regret s' = (regret s)[t := regret s ! (t - 1) + (means ! best_arm - means ! arm)]
      \<and> (\<forall>a<K. counts s ! a = 0 \<and> (\<forall>b<a. counts s ! b \<noteq> 0) \<longrightarrow> arm = a)"
    by blast
qed

lemma standard_round_spec:
  assumes "0 < K" and "length means = K" and "length variances = K" and "best_arm < K"
  shows "round_spec K means best_arm
    (\<lambda>s. length (counts s) = K \<and> length (emp_means s) = K) counts regret
    (standard_select T K) (standard_round T K means variances best_arm rewards)"
  unfolding round_spec_def
proof (intro allI impI conjI)
  fix t :: nat and s :: ucb_state
  assume good: "length (counts s) = K \<and> length (emp_means s) = K"
  then show "length (counts s) = K" by simp
  have "\<forall>a<K. (standard_index T s a = PInf) = (counts s ! a = 0)"
    by (simp add: standard_index_def)
  from select_first_unpulled [OF assms(1) this] obtain arm where
    arm: "standard_select T K s = Inr arm" "arm < K"
      "\<forall>a<K. counts s ! a = 0 \<and> (\<forall>b<a. counts s ! b \<noteq> 0) \<longrightarrow> arm = a"
    unfolding standard_select_def by blast
  obtain s' where body: "standard_round T K means variances best_arm rewards t s = Inr s'"
      "counts s' = (counts s)[arm := Suc (counts s ! arm)]"
      "regret s' = (regret s)[t := regret s ! (t - 1) + (means ! best_arm - means ! arm)]"
      "length (emp_means s') = K"
    using arm(1,2) assms(2-4) good by (simp add: standard_round_def Let_def)
  from body(2) good have "length (counts s') = K" by simp
  with body arm
  show "\<exists>arm s'. standard_select T K s = Inr arm
      \<and> standard_round T K means variances best_arm rewards t s = Inr s' \<and> arm < K
      \<and> (length (counts s') = K \<and> length (emp_means s') = K)
      \<and> counts s' = (counts s)[arm := Suc (counts s ! arm)]
      \<and> regret s' = (regret s)[t := regret s ! (t - 1) + (means ! best_arm - means ! arm)]
      \<and> (\<forall>a<K. counts s ! a = 0 \<and> (\<forall>b<a. counts s ! b \<noteq> 0) \<longrightarrow> arm = a)"
    by blast
qed

lemma unknown_round_spec:
  assumes "0 < K" and "length means = K" and "length variances = K" and "best_arm < K"
  shows "round_spec K means best_arm
    (\<lambda>s. length (counts s) = K \<and> length (emp_means s) = K
        \<and> length (emp_vars s) = K \<and> length (M2 s) = K) counts regret
    (unknown_select T K) (unknown_round T K means variances best_arm rewards)"
  unfolding round_spec_def
proof (intro allI impI conjI)
  fix t :: nat and s :: unknown_state
  assume good: "length (counts s) = K \<and> length (emp_means s) = K
    \<and> length (emp_vars s) = K \<and> length (M2 s) = K"
  then show "length (counts s) = K" by simp
  have "\<forall>a<K. (unknown_index T s a = PInf) = (counts s ! a = 0)"
    by (simp add: unknown_index_def Let_def)
  from select_first_unpulled [OF assms(1) this] obtain arm where
    arm: "unknown_select T K s = Inr arm" "arm < K"
      "\<forall>a<K. counts s ! a = 0 \<and> (\<forall>b<a. counts s ! b \<noteq> 0) \<longrightarrow> arm = a"
    unfolding unknown_select_def by blast
  obtain s' where body: "unknown_round T K means variances best_arm rewards t s = Inr s'"
      "counts s' = (counts s)[arm := Suc (counts s ! arm)]"
      "regret s' = (regret s)[t := regret s ! (t - 1) + (means ! best_arm - means ! arm)]"
      "length (emp_means s') = K" "length (emp_vars s') = K" "length (M2 s') = K"
    using arm(1,2) assms(2-4) good by (simp add: unknown_round_def Let_def)
  from body(2) good have "length (counts s') = K" by simp
  with body arm
  show "\<exists>arm s'. unknown_select T K s = Inr arm
      \<and> unknown_round T K means variances best_arm rewards t s = Inr s' \<and> arm < K
      \<and> (length (counts s') = K \<and> length (emp_means s') = K
          \<and> length (emp_vars s') = K \<and> length (M2 s') = K)
      \<and> counts s' = (counts s)[arm := Suc (counts s ! arm)]
      \<and> regret s' = (regret s)[t := regret s ! (t - 1) + (means ! best_arm - means ! arm)]
      \<and> (\<forall>a<K. counts s ! a = 0 \<and> (\<forall>b<a. counts s ! b \<noteq> 0) \<longrightarrow> arm = a)"
    by blast
qed

subsection \<open>Whole runs\<close>

lemma regret_of_pulls_props:
  assumes "length arms = T"
  shows "length (regret_of_pulls T means best_arm arms) = T + 1"
    and "regret_of_pulls T means best_arm arms ! 0 = 0"
    and "\<And>t. 1 \<le> t \<Longrightarrow> t \<le> T \<Longrightarrow>
           regret_of_pulls T means best_arm arms ! t =
             regret_of_pulls T means best_arm arms ! (t - 1)
               + (means ! best_arm - means ! (arms ! (t - 1)))"
proof -
  show "length (regret_of_pulls T means best_arm arms) = T + 1"
    by (simp add: regret_of_pulls_def length_accumulate)
  have len: "1 + length arms \<le> length (replicate (T + 1) (0::real))"
    using assms by simp
  from accumulate_nth [OF _ len, of means best_arm]
  have low: "\<forall>t<1. regret_of_pulls T means best_arm arms ! t = replicate (T + 1) 0 ! t"
    and up: "\<forall>i<length arms. regret_of_pulls T means best_arm arms ! (1 + i) =
        regret_of_pulls T means best_arm arms ! (1 + i - 1)
          + (means ! best_arm - means ! (arms ! i))"
    unfolding regret_of_pulls_def by simp_all
  from low show "regret_of_pulls T means best_arm arms ! 0 = 0" by simp
  fix t :: nat
  assume t: "1 \<le> t" "t \<le> T"
  then have "t - 1 < length arms" "1 + (t - 1) = t" using assms by simp_all
  with up [rule_format, of "t - 1"]
  show "regret_of_pulls T means best_arm arms ! t =
      regret_of_pulls T means best_arm arms ! (t - 1)
        + (means ! best_arm - means ! (arms ! (t - 1)))"
    by simp
qed

lemma known_run:
  assumes "0 < K" and "length means = K" and "length variances = K" and "best_arm < K"
  shows "known_variance_ucb T K means variances best_arm rewards =
      Inr (regret_of_pulls T means best_arm (known_pulls T K means variances best_arm rewards))"
    and "length (known_pulls T K means variances best_arm rewards) = T"
    and "\<forall>a\<in>set (known_pulls T K means variances best_arm rewards). a < K"
proof -
  have good: "length (counts (init_state T K)) = K \<and> length (emp_means (init_state T K)) = K"
    by (simp add: init_state_def)
  from run_rounds_spec [OF known_round_spec [OF assms] good, of T rewards 1 T]
  show "known_variance_ucb T K means variances best_arm rewards =
      Inr (regret_of_pulls T means best_arm (known_pulls T K means variances best_arm rewards))"
    and "length (known_pulls T K means variances best_arm rewards) = T"
    and "\<forall>a\<in>set (known_pulls T K means variances best_arm rewards). a < K"
    by (auto simp: known_variance_ucb_def known_pulls_def regret_of_pulls_def init_state_def)
qed

lemma standard_run:
  assumes "0 < K" and "length means = K" and "length variances = K" and "best_arm < K"
  shows "standard_ucb T K means variances best_arm rewards =
      Inr (regret_of_pulls T means best_arm (standard_pulls T K means variances best_arm rewards))"
    and "length (standard_pulls T K means variances best_arm rewards) = T"
    and "\<forall>a\<in>set (standard_pulls T K means variances best_arm rewards). a < K"
proof -
  have good: "length (counts (init_state T K)) = K \<and> length (emp_means (init_state T K)) = K"
    by (simp add: init_state_def)
  from run_rounds_spec [OF standard_round_spec [OF assms] good, of T rewards 1 T]
  show "standard_ucb T K means variances best_arm rewards =
      Inr (regret_of_pulls T means best_arm (standard_pulls T K means variances best_arm rewards))"
    and "length (standard_pulls T K means variances best_arm rewards) = T"
    and "\<forall>a\<in>set (standard_pulls T K means variances best_arm rewards). a < K"
    by (auto simp: standard_ucb_def standard_pulls_def regret_of_pulls_def init_state_def)
qed

lemma unknown_run:
  assumes "0 < K" and "length means = K" and "length variances = K" and "best_arm < K"
  shows "unknown_variance_ucb T K means variances best_arm rewards =
      Inr (regret_of_pulls T means best_arm (unknown_pulls T K means variances best_arm rewards))"
    and "length (unknown_pulls T K means variances best_arm rewards) = T"
    and "\<forall>a\<in>set (unknown_pulls T K means variances best_arm rewards). a < K"
proof -
  have good: "length (counts (init_unknown T K)) = K \<and> length (emp_means (init_unknown T K)) = K
      \<and> length (emp_vars (init_unknown T K)) = K \<and> length (M2 (init_unknown T K)) = K"
    by (simp add: init_unknown_def)
  from run_rounds_spec [OF unknown_round_spec [OF assms] good, of T rewards 1 T]
  show "unknown_variance_ucb T K means variances best_arm rewards =
      Inr (regret_of_pulls T means best_arm (unknown_pulls T K means variances best_arm rewards))"
    and "length (unknown_pulls T K means variances best_arm rewards) = T"
    and "\<forall>a\<in>set (unknown_pulls T K means variances best_arm rewards). a < K"
    by (auto simp: unknown_variance_ucb_def unknown_pulls_def regret_of_pulls_def init_unknown_def)
qed

text \<open>A trace determined by arms below \<open>K\<close>, with \<open>best_arm\<close> an arm of maximal mean.\<close>

lemma regret_of_pulls_monotone:
  assumes "length arms = T" and "\<forall>a\<in>set arms. a < K" and "\<forall>a<K. means ! a \<le> means ! best_arm"
  shows "length (regret_of_pulls T means best_arm arms) = T + 1
    \<and> regret_of_pulls T means best_arm arms ! 0 = 0
    \<and> (\<forall>t. 1 \<le> t \<and> t \<le> T \<longrightarrow>
          regret_of_pulls T means best_arm arms ! (t - 1) \<le> regret_of_pulls T means best_arm arms ! t)"
proof (intro conjI allI impI)
  show "length (regret_of_pulls T means best_arm arms) = T + 1"
    and "regret_of_pulls T means best_arm arms ! 0 = 0"
    using regret_of_pulls_props(1,2) [OF assms(1)] by simp_all
  fix t assume t: "1 \<le> t \<and> t \<le> T"
  with assms(1) have "t - 1 < length arms" by auto
  then have "arms ! (t - 1) \<in> set arms" by (rule nth_mem)
  with assms(2,3) have "means ! (arms ! (t - 1)) \<le> means ! best_arm" by simp
  with regret_of_pulls_props(3) [OF assms(1), of t means best_arm] t
  show "regret_of_pulls T means best_arm arms ! (t - 1) \<le> regret_of_pulls T means best_arm arms ! t"
    by simp
qed

subsection \<open>Regret traces\<close>

text \<open>
  C1. For each of the three policies, with at least one arm, means and variances of length
  \<open>K\<close> and \<open>best_arm\<close> an arm of maximal mean, and for every sequence of sampled
  rewards: the policy returns a trace (it raises nothing), the trace has \<open>T + 1\<close> entries,
  entry 0 is 0, no entry is below its predecessor, and so no entry is negative.
\<close>

theorem regret_trace_monotone:
  assumes "1 \<le> K" and "length means = K" and "length variances = K" and "best_arm < K"
    and "\<forall>a<K. means ! a \<le> means ! best_arm"
  shows "(\<exists>r. known_variance_ucb T K means variances best_arm rewards = Inr r
            \<and> length r = T + 1 \<and> r ! 0 = 0
            \<and> (\<forall>t. 1 \<le> t \<and> t \<le> T \<longrightarrow> r ! (t - 1) \<le> r ! t) \<and> (\<forall>t\<le>T. 0 \<le> r ! t))
    \<and> (\<exists>r. unknown_variance_ucb T K means variances best_arm rewards = Inr r
            \<and> length r = T + 1 \<and> r ! 0 = 0
            \<and> (\<forall>t. 1 \<le> t \<and> t \<le> T \<longrightarrow> r ! (t - 1) \<le> r ! t) \<and> (\<forall>t\<le>T. 0 \<le> r ! t))
    \<and> (\<exists>r. standard_ucb T K means variances best_arm rewards = Inr r
            \<and> length r = T + 1 \<and> r ! 0 = 0
            \<and> (\<forall>t. 1 \<le> t \<and> t \<le> T \<longrightarrow> r ! (t - 1) \<le> r ! t) \<and> (\<forall>t\<le>T. 0 \<le> r ! t))"
proof -
  from assms(1) have K: "0 < K" by simp
  have nonneg: "\<forall>t\<le>T. 0 \<le> r ! t"
    if "r ! 0 = (0::real)" and "\<forall>t. 1 \<le> t \<and> t \<le> T \<longrightarrow> r ! (t - 1) \<le> r ! t" for r
  proof (intro allI impI)
    fix t assume "t \<le> T"
    then show "0 \<le> r ! t"
    proof (induction t)
      case 0
      with that(1) show ?case by simp
    next
      case (Suc t)
      with that(2) [rule_format, of "Suc t"] show ?case by simp
    qed
  qed
  have trace: "length (regret_of_pulls T means best_arm arms) = T + 1
      \<and> regret_of_pulls T means best_arm arms ! 0 = 0
      \<and> (\<forall>t. 1 \<le> t \<and> t \<le> T \<longrightarrow>
            regret_of_pulls T means best_arm arms ! (t - 1) \<le> regret_of_pulls T means best_arm arms ! t)
      \<and> (\<forall>t\<le>T. 0 \<le> regret_of_pulls T means best_arm arms ! t)"
    if "length arms = T" and "\<forall>a\<in>set arms. a < K" for arms
    using regret_of_pulls_monotone [OF that assms(5)] nonneg by blast
  show ?thesis
    using trace [OF known_run(2,3) [OF K assms(2-4)]] known_run(1) [OF K assms(2-4)]
      trace [OF unknown_run(2,3) [OF K assms(2-4)]] unknown_run(1) [OF K assms(2-4)]
      trace [OF standard_run(2,3) [OF K assms(2-4)]] standard_run(1) [OF K assms(2-4)]
    by simp
qed

theorem regret_trace_monotone_witness:
  "(\<exists>r. known_variance_ucb 3 2 [4 / 5, 1 / 5] [1, 1] 0 (\<lambda>t. real t) = Inr r
          \<and> length r = 3 + 1 \<and> r ! 0 = 0
          \<and> (\<forall>t. 1 \<le> t \<and> t \<le> 3 \<longrightarrow> r ! (t - 1) \<le> r ! t) \<and> (\<forall>t\<le>3. 0 \<le> r ! t))
    \<and> (\<exists>r. unknown_variance_ucb 3 2 [4 / 5, 1 / 5] [1, 1] 0 (\<lambda>t. real t) = Inr r
          \<and> length r = 3 + 1 \<and> r ! 0 = 0
          \<and> (\<forall>t. 1 \<le> t \<and> t \<le> 3 \<longrightarrow> r ! (t - 1) \<le> r ! t) \<and> (\<forall>t\<le>3. 0 \<le> r ! t))
    \<and> (\<exists>r. standard_ucb 3 2 [4 / 5, 1 / 5] [1, 1] 0 (\<lambda>t. real t) = Inr r
          \<and> length r = 3 + 1 \<and> r ! 0 = 0
          \<and> (\<forall>t. 1 \<le> t \<and> t \<le> 3 \<longrightarrow> r ! (t - 1) \<le> r ! t) \<and> (\<forall>t\<le>3. 0 \<le> r ! t))"
proof -
  have "\<forall>a<2. [4 / 5, 1 / 5 :: real] ! a \<le> [4 / 5, 1 / 5] ! 0"
    by (simp add: less_Suc_eq numeral_2_eq_2)
  then show ?thesis
    by (intro regret_trace_monotone [of 2 "[4 / 5, 1 / 5]" "[1, 1]" 0 3 "\<lambda>t. real t"]) simp_all
qed

text \<open>
  C7. For each of the three policies, on an instance with at least one arm, the regret
  trace is the trace that the list of chosen arms determines: round \<open>t\<close> adds exactly
  \<open>means[best_arm] - means[chosen arm]\<close>. Hence two runs on the same instance whose reward
  draws differ and whose chosen arms coincide return the same trace.
\<close>

theorem regret_depends_on_pulls_only:
  assumes "1 \<le> K" and "length means = K" and "length variances = K" and "best_arm < K"
  shows "known_variance_ucb T K means variances best_arm rewards =
        Inr (regret_of_pulls T means best_arm (known_pulls T K means variances best_arm rewards))
    \<and> unknown_variance_ucb T K means variances best_arm rewards =
        Inr (regret_of_pulls T means best_arm (unknown_pulls T K means variances best_arm rewards))
    \<and> standard_ucb T K means variances best_arm rewards =
        Inr (regret_of_pulls T means best_arm (standard_pulls T K means variances best_arm rewards))
    \<and> (known_pulls T K means variances best_arm rewards =
         known_pulls T K means variances best_arm rewards' \<longrightarrow>
       known_variance_ucb T K means variances best_arm rewards =
         known_variance_ucb T K means variances best_arm rewards')
    \<and> (unknown_pulls T K means variances best_arm rewards =
         unknown_pulls T K means variances best_arm rewards' \<longrightarrow>
       unknown_variance_ucb T K means variances best_arm rewards =
         unknown_variance_ucb T K means variances best_arm rewards')
    \<and> (standard_pulls T K means variances best_arm rewards =
         standard_pulls T K means variances best_arm rewards' \<longrightarrow>
       standard_ucb T K means variances best_arm rewards =
         standard_ucb T K means variances best_arm rewards')
    \<and> (\<forall>arms t. length arms = T \<and> 1 \<le> t \<and> t \<le> T \<longrightarrow>
         regret_of_pulls T means best_arm arms ! t =
           regret_of_pulls T means best_arm arms ! (t - 1)
             + (means ! best_arm - means ! (arms ! (t - 1))))
    \<and> length (known_pulls T K means variances best_arm rewards) = T
    \<and> length (unknown_pulls T K means variances best_arm rewards) = T
    \<and> length (standard_pulls T K means variances best_arm rewards) = T"
proof -
  from assms(1) have K: "0 < K" by simp
  note k = known_run [OF K assms(2-4)]
  note u = unknown_run [OF K assms(2-4)]
  note s = standard_run [OF K assms(2-4)]
  have step: "\<forall>arms t. length arms = T \<and> 1 \<le> t \<and> t \<le> T \<longrightarrow>
      regret_of_pulls T means best_arm arms ! t =
        regret_of_pulls T means best_arm arms ! (t - 1)
          + (means ! best_arm - means ! (arms ! (t - 1)))"
    using regret_of_pulls_props(3) by blast
  show ?thesis
    using k(1) [of T rewards] k(1) [of T rewards'] k(2) [of T rewards]
      u(1) [of T rewards] u(1) [of T rewards'] u(2) [of T rewards]
      s(1) [of T rewards] s(1) [of T rewards'] s(2) [of T rewards] step
    by simp
qed

theorem regret_depends_on_pulls_only_witness:
  "known_variance_ucb 3 2 [4 / 5, 1 / 5] [1, 1] 0 (\<lambda>t. real t) =
        Inr (regret_of_pulls 3 [4 / 5, 1 / 5] 0 (known_pulls 3 2 [4 / 5, 1 / 5] [1, 1] 0 (\<lambda>t. real t)))
    \<and> unknown_variance_ucb 3 2 [4 / 5, 1 / 5] [1, 1] 0 (\<lambda>t. real t) =
        Inr (regret_of_pulls 3 [4 / 5, 1 / 5] 0 (unknown_pulls 3 2 [4 / 5, 1 / 5] [1, 1] 0 (\<lambda>t. real t)))
    \<and> standard_ucb 3 2 [4 / 5, 1 / 5] [1, 1] 0 (\<lambda>t. real t) =
        Inr (regret_of_pulls 3 [4 / 5, 1 / 5] 0 (standard_pulls 3 2 [4 / 5, 1 / 5] [1, 1] 0 (\<lambda>t. real t)))
    \<and> length (known_pulls 3 2 [4 / 5, 1 / 5] [1, 1] 0 (\<lambda>t. real t)) = 3
    \<and> length (unknown_pulls 3 2 [4 / 5, 1 / 5] [1, 1] 0 (\<lambda>t. real t)) = 3
    \<and> length (standard_pulls 3 2 [4 / 5, 1 / 5] [1, 1] 0 (\<lambda>t. real t)) = 3"
  using regret_depends_on_pulls_only [of 2 "[4 / 5, 1 / 5]" "[1, 1]" 0 3 "\<lambda>t. real t" "\<lambda>t. real t"]
  by simp

subsection \<open>The bootstrap phase\<close>

lemma take_upt_nth:
  assumes "take K xs = [0..<K]" and "1 \<le> t" and "t \<le> K"
  shows "xs ! (t - 1) = t - 1"
proof -
  from assms(2,3) have "t - 1 < K" by simp
  then have "take K xs ! (t - 1) = xs ! (t - 1)" by simp
  with assms(1) \<open>t - 1 < K\<close> show ?thesis by simp
qed

text \<open>
  C6. For each of the three policies, with \<open>1 \<le> K \<le> T\<close>: the arms chosen in the first
  \<open>K\<close> rounds are \<open>0, 1, ..., K - 1\<close> in this order, that is, round \<open>t\<close> pulls arm
  \<open>t - 1\<close> for \<open>t = 1..K\<close>; so every arm is pulled once before any arm is pulled twice.
\<close>

theorem bootstrap_pulls_in_index_order:
  assumes "1 \<le> K" and "K \<le> T" and "length means = K" and "length variances = K"
    and "best_arm < K"
  shows "take K (known_pulls T K means variances best_arm rewards) = [0..<K]
    \<and> take K (unknown_pulls T K means variances best_arm rewards) = [0..<K]
    \<and> take K (standard_pulls T K means variances best_arm rewards) = [0..<K]
    \<and> (\<forall>t. 1 \<le> t \<and> t \<le> K \<longrightarrow>
         known_pulls T K means variances best_arm rewards ! (t - 1) = t - 1
         \<and> unknown_pulls T K means variances best_arm rewards ! (t - 1) = t - 1
         \<and> standard_pulls T K means variances best_arm rewards ! (t - 1) = t - 1)"
proof -
  from assms(1) have K: "0 < K" by simp
  have k: "take K (known_pulls T K means variances best_arm rewards) = [0..<K]"
    using pulls_bootstrap [OF known_round_spec [OF K assms(3-5), of T rewards],
        where s = "init_state T K" and j = 0 and T = T]
      assms(2)
    by (simp add: known_pulls_def init_state_def)
  have u: "take K (unknown_pulls T K means variances best_arm rewards) = [0..<K]"
    using pulls_bootstrap [OF unknown_round_spec [OF K assms(3-5), of T rewards],
        where s = "init_unknown T K" and j = 0 and T = T]
      assms(2)
    by (simp add: unknown_pulls_def init_unknown_def)
  have s: "take K (standard_pulls T K means variances best_arm rewards) = [0..<K]"
    using pulls_bootstrap [OF standard_round_spec [OF K assms(3-5), of T rewards],
        where s = "init_state T K" and j = 0 and T = T]
      assms(2)
    by (simp add: standard_pulls_def init_state_def)
  from k u s take_upt_nth [OF k] take_upt_nth [OF u] take_upt_nth [OF s]
  show ?thesis by blast
qed

theorem bootstrap_pulls_in_index_order_witness:
  "take 3 (known_pulls 5 3 [1 / 2, 4 / 5, 1 / 5] [1, 2, 3] 1 (\<lambda>t. real t)) = [0..<3]
    \<and> take 3 (unknown_pulls 5 3 [1 / 2, 4 / 5, 1 / 5] [1, 2, 3] 1 (\<lambda>t. real t)) = [0..<3]
    \<and> take 3 (standard_pulls 5 3 [1 / 2, 4 / 5, 1 / 5] [1, 2, 3] 1 (\<lambda>t. real t)) = [0..<3]"
  using bootstrap_pulls_in_index_order
    [of 3 5 "[1 / 2, 4 / 5, 1 / 5]" "[1, 2, 3]" 1 "\<lambda>t. real t"]
  by simp

subsection \<open>The state in which a round selects its arm\<close>

lemma state_before_round:
  assumes "round_spec K means best_arm good cnt reg sel body" and "good s0"
    and "1 \<le> t" and "t \<le> T"
  shows "\<exists>s. run_rounds body [1..<t] s0 = Inr s \<and> good s
    \<and> sel s = Inr (pulls sel body [1..<T + 1] s0 ! (t - 1))
    \<and> pulls sel body [1..<t] s0 = take (t - 1) (pulls sel body [1..<T + 1] s0)
    \<and> run_rounds body [1..<t + 1] s0 = body t s"
proof -
  from assms(3) have t1: "1 + (t - 1) = t" by simp
  from run_rounds_spec [OF assms(1,2), of 1 "t - 1"] obtain s where
    s: "run_rounds body [1..<t] s0 = Inr s" "good s"
      "length (pulls sel body [1..<t] s0) = t - 1"
    unfolding t1 by blast
  from assms(1) s(2) obtain arm u where
    u: "sel s = Inr arm" "body t s = Inr u"
    unfolding round_spec_def by blast
  from assms(3,4) have "[1..<T + 1] = [1..<t] @ [t..<T + 1]"
    by (metis add.commute le_add_diff_inverse2 upt_add_eq_append
        Suc_eq_plus1 le_SucI)
  moreover from assms(4) have "[t..<T + 1] = t # [Suc t..<T + 1]"
    by (simp add: upt_conv_Cons)
  ultimately have whole: "[1..<T + 1] = [1..<t] @ t # [Suc t..<T + 1]" by simp
  have len: "length (pulls sel body [1..<t] s0) = length [1..<t]"
    using s(3) by simp
  have "pulls sel body [1..<T + 1] s0 =
      pulls sel body [1..<t] s0 @ pulls sel body (t # [Suc t..<T + 1]) s"
    unfolding whole by (rule pulls_append [OF s(1) len])
  with u have app: "pulls sel body [1..<T + 1] s0 =
      pulls sel body [1..<t] s0 @ arm # pulls sel body [Suc t..<T + 1] u"
    by simp
  from app s(3) have nth: "pulls sel body [1..<T + 1] s0 ! (t - 1) = arm"
    by (metis nth_append_length)
  from app s(3) have tk: "pulls sel body [1..<t] s0 = take (t - 1) (pulls sel body [1..<T + 1] s0)"
    by simp
  from assms(3) have "[1..<t + 1] = [1..<t] @ [t]" by simp
  then have "run_rounds body [1..<t + 1] s0 = body t s"
    using s(1) by (simp add: run_rounds_append split: sum.splits)
  with s u(1) nth tk show ?thesis by simp
qed

subsection \<open>standard_ucb: index and selection\<close>

lemma standard_round_variances:
  "length variances' = length variances \<Longrightarrow>
    standard_round T K means variances' best_arm rewards =
      standard_round T K means variances best_arm rewards"
  by (intro ext) (simp add: standard_round_def split: sum.splits)

text \<open>
  C4. In a run of \<open>standard_ucb\<close> with at least one arm, at every round \<open>t\<close> of
  \<open>1..T\<close>, in the state \<open>s\<close> left by the rounds before: the index of an arm never pulled
  is positive infinity, the index of an arm pulled before is
  \<open>emp_means[a] + sqrt(4 ln T / counts[a])\<close>, and the arm the round pulls is an arm of
  maximal index, every arm before it having a strictly smaller index. The variances do
  not enter the index: a run with other variances returns the same trace.
\<close>

theorem standard_index_and_selection:
  assumes "1 \<le> K" and "length means = K" and "length variances = K" and "best_arm < K"
    and "1 \<le> t" and "t \<le> T"
  shows "\<exists>s arm. standard_state_after T K means variances best_arm rewards (t - 1) = Inr s
      \<and> standard_select T K s = Inr arm
      \<and> standard_pulls T K means variances best_arm rewards ! (t - 1) = arm \<and> arm < K
      \<and> standard_state_after T K means variances best_arm rewards t =
          standard_round T K means variances best_arm rewards t s
      \<and> (\<forall>a<K. standard_index T s a =
            (if counts s ! a = 0 then PInf
             else Num (emp_means s ! a + sqrt (4 * ln (real T) / real (counts s ! a)))))
      \<and> (\<forall>a<K. \<not> fl_less (standard_index T s arm) (standard_index T s a))
      \<and> (\<forall>a<arm. fl_less (standard_index T s a) (standard_index T s arm))
      \<and> (\<forall>variances'. length variances' = K \<longrightarrow>
            standard_ucb T K means variances' best_arm rewards =
              standard_ucb T K means variances best_arm rewards)"
proof -
  from assms(1) have K: "0 < K" by simp
  have good: "length (counts (init_state T K)) = K \<and> length (emp_means (init_state T K)) = K"
    by (simp add: init_state_def)
  from assms(5) have t1: "t - 1 + 1 = t" by simp
  from state_before_round [OF standard_round_spec [OF K assms(2-4), of T rewards] good assms(5,6)]
  obtain s where
    s: "standard_state_after T K means variances best_arm rewards (t - 1) = Inr s"
      "standard_select T K s = Inr (standard_pulls T K means variances best_arm rewards ! (t - 1))"
      "standard_state_after T K means variances best_arm rewards t =
         standard_round T K means variances best_arm rewards t s"
    unfolding standard_state_after_def standard_pulls_def t1 by blast
  let ?arm = "standard_pulls T K means variances best_arm rewards ! (t - 1)"
  let ?xs = "map (standard_index T s) [0..<K]"
  from K have ne: "?xs \<noteq> []" by simp
  from np_argmax_first_max [OF ne] s(2)
  have arm: "?arm < K" "\<forall>k<K. \<not> fl_less (?xs ! ?arm) (?xs ! k)" "\<forall>k<?arm. fl_less (?xs ! k) (?xs ! ?arm)"
    unfolding standard_select_def by auto
  from arm(1,2) have mx: "\<forall>a<K. \<not> fl_less (standard_index T s ?arm) (standard_index T s a)"
    by simp
  from arm(1,3) have fst: "\<forall>a<?arm. fl_less (standard_index T s a) (standard_index T s ?arm)"
    by simp
  have idx: "\<forall>a<K. standard_index T s a =
      (if counts s ! a = 0 then PInf
       else Num (emp_means s ! a + sqrt (4 * ln (real T) / real (counts s ! a))))"
    by (simp add: standard_index_def)
  have var: "\<forall>variances'. length variances' = K \<longrightarrow>
      standard_ucb T K means variances' best_arm rewards =
        standard_ucb T K means variances best_arm rewards"
  proof (intro allI impI)
    fix variances' :: "real list"
    assume "length variances' = K"
    with assms(3) have "length variances' = length variances" by simp
    from standard_round_variances [OF this, of T K means best_arm rewards]
    show "standard_ucb T K means variances' best_arm rewards =
        standard_ucb T K means variances best_arm rewards"
      by (simp only: standard_ucb_def)
  qed
  from s arm(1) mx fst idx var show ?thesis by blast
qed

theorem standard_index_and_selection_witness:
  "\<exists>s arm. standard_state_after 3 2 [4 / 5, 1 / 5] [1, 1] 0 (\<lambda>t. real t) (2 - 1) = Inr s
      \<and> standard_select 3 2 s = Inr arm
      \<and> standard_pulls 3 2 [4 / 5, 1 / 5] [1, 1] 0 (\<lambda>t. real t) ! (2 - 1) = arm \<and> arm < 2
      \<and> standard_state_after 3 2 [4 / 5, 1 / 5] [1, 1] 0 (\<lambda>t. real t) 2 =
          standard_round 3 2 [4 / 5, 1 / 5] [1, 1] 0 (\<lambda>t. real t) 2 s"
proof -
  from standard_index_and_selection [of 2 "[4 / 5, 1 / 5]" "[1, 1]" 0 2 3 "\<lambda>t. real t"]
  obtain s arm where
    "standard_state_after 3 2 [4 / 5, 1 / 5] [1, 1] 0 (\<lambda>t. real t) (2 - 1) = Inr s"
    "standard_select 3 2 s = Inr arm"
    "standard_pulls 3 2 [4 / 5, 1 / 5] [1, 1] 0 (\<lambda>t. real t) ! (2 - 1) = arm" "arm < 2"
    "standard_state_after 3 2 [4 / 5, 1 / 5] [1, 1] 0 (\<lambda>t. real t) 2 =
       standard_round 3 2 [4 / 5, 1 / 5] [1, 1] 0 (\<lambda>t. real t) 2 s"
    by auto
  then show ?thesis by blast
qed

subsection \<open>unknown_variance_ucb: the clamped correction factor\<close>

lemma correction_floor: "1 / 10 ^ 6 \<le> correction T n"
  by (simp add: correction_def)

lemma correction_denominator: "1 \<le> n \<Longrightarrow> 0 < real n * correction T n"
proof -
  assume "1 \<le> n"
  moreover have "(0::real) < 1 / 10 ^ 6" by simp
  then have "0 < correction T n" using correction_floor [of T n] by linarith
  ultimately show ?thesis by simp
qed

text \<open>
  C3. In a run of \<open>unknown_variance_ucb\<close> with at least one arm, at every round \<open>t\<close>
  of \<open>1..T\<close>, in the state \<open>s\<close> left by the rounds before, the index of every arm with
  count \<open>n \<ge> 1\<close> is \<open>emp_means[a] + sqrt(emp_vars[a]) * sqrt(4 ln T / (n * c))\<close> with
  \<open>c = max(1 - 2 sqrt(2 ln T / n), 1e-6)\<close>; \<open>c\<close> is at least \<open>1e-6\<close>, the denominator
  \<open>n * c\<close> is positive, and the round and the whole run end without an error.
\<close>

theorem unknown_index_correction:
  assumes "1 \<le> K" and "length means = K" and "length variances = K" and "best_arm < K"
    and "1 \<le> t" and "t \<le> T"
  shows "\<exists>s s' r. unknown_state_after T K means variances best_arm rewards (t - 1) = Inr s
      \<and> unknown_state_after T K means variances best_arm rewards t = Inr s'
      \<and> unknown_round T K means variances best_arm rewards t s = Inr s'
      \<and> unknown_variance_ucb T K means variances best_arm rewards = Inr r
      \<and> (\<forall>a<K. 1 \<le> counts s ! a \<longrightarrow>
            unknown_index T s a =
              Num (emp_means s ! a
                   + sqrt (emp_vars s ! a)
                     * sqrt (4 * ln (real T)
                             / (real (counts s ! a) * correction T (counts s ! a))))
            \<and> correction T (counts s ! a) =
                max (1 - 2 * sqrt (2 * ln (real T) / real (counts s ! a))) (1 / 10 ^ 6)
            \<and> 1 / 10 ^ 6 \<le> correction T (counts s ! a)
            \<and> 0 < real (counts s ! a) * correction T (counts s ! a))"
proof -
  from assms(1) have K: "0 < K" by simp
  have good: "length (counts (init_unknown T K)) = K \<and> length (emp_means (init_unknown T K)) = K
      \<and> length (emp_vars (init_unknown T K)) = K \<and> length (M2 (init_unknown T K)) = K"
    by (simp add: init_unknown_def)
  from assms(5) have t1: "t - 1 + 1 = t" by simp
  note spec = unknown_round_spec [OF K assms(2-4), of T rewards]
  from state_before_round [OF spec good assms(5,6)]
  obtain s where
    s: "unknown_state_after T K means variances best_arm rewards (t - 1) = Inr s"
      "length (counts s) = K \<and> length (emp_means s) = K
        \<and> length (emp_vars s) = K \<and> length (M2 s) = K"
      "unknown_state_after T K means variances best_arm rewards t =
         unknown_round T K means variances best_arm rewards t s"
    unfolding unknown_state_after_def t1 by blast
  from spec s(2) obtain s' where
    s': "unknown_round T K means variances best_arm rewards t s = Inr s'"
    unfolding round_spec_def by blast
  have idx: "\<forall>a<K. 1 \<le> counts s ! a \<longrightarrow>
      unknown_index T s a =
        Num (emp_means s ! a
             + sqrt (emp_vars s ! a)
               * sqrt (4 * ln (real T) / (real (counts s ! a) * correction T (counts s ! a))))
      \<and> correction T (counts s ! a) =
          max (1 - 2 * sqrt (2 * ln (real T) / real (counts s ! a))) (1 / 10 ^ 6)
      \<and> 1 / 10 ^ 6 \<le> correction T (counts s ! a)
      \<and> 0 < real (counts s ! a) * correction T (counts s ! a)"
  proof (intro allI impI conjI)
    fix a assume "a < K" and n: "1 \<le> counts s ! a"
    then show "unknown_index T s a =
        Num (emp_means s ! a
             + sqrt (emp_vars s ! a)
               * sqrt (4 * ln (real T) / (real (counts s ! a) * correction T (counts s ! a))))"
      by (simp add: unknown_index_def Let_def)
    show "correction T (counts s ! a) =
        max (1 - 2 * sqrt (2 * ln (real T) / real (counts s ! a))) (1 / 10 ^ 6)"
      by (simp add: correction_def)
    show "1 / 10 ^ 6 \<le> correction T (counts s ! a)" by (rule correction_floor)
    from n show "0 < real (counts s ! a) * correction T (counts s ! a)"
      by (rule correction_denominator)
  qed
  from s(1,3) s' unknown_run(1) [OF K assms(2-4), of T rewards] idx
  show ?thesis by auto
qed

theorem unknown_index_correction_witness:
  "\<exists>s s' r. unknown_state_after 3 2 [4 / 5, 1 / 5] [1, 1] 0 (\<lambda>t. real t) (2 - 1) = Inr s
      \<and> unknown_state_after 3 2 [4 / 5, 1 / 5] [1, 1] 0 (\<lambda>t. real t) 2 = Inr s'
      \<and> unknown_round 3 2 [4 / 5, 1 / 5] [1, 1] 0 (\<lambda>t. real t) 2 s = Inr s'
      \<and> unknown_variance_ucb 3 2 [4 / 5, 1 / 5] [1, 1] 0 (\<lambda>t. real t) = Inr r"
proof -
  from unknown_index_correction [of 2 "[4 / 5, 1 / 5]" "[1, 1]" 0 2 3 "\<lambda>t. real t"]
  obtain s s' r where
    "unknown_state_after 3 2 [4 / 5, 1 / 5] [1, 1] 0 (\<lambda>t. real t) (2 - 1) = Inr s"
    "unknown_state_after 3 2 [4 / 5, 1 / 5] [1, 1] 0 (\<lambda>t. real t) 2 = Inr s'"
    "unknown_round 3 2 [4 / 5, 1 / 5] [1, 1] 0 (\<lambda>t. real t) 2 s = Inr s'"
    "unknown_variance_ucb 3 2 [4 / 5, 1 / 5] [1, 1] 0 (\<lambda>t. real t) = Inr r"
    by auto
  then show ?thesis by blast
qed

subsection \<open>Aggregation over trials\<close>

lemma axis0_single:
  assumes "length r = w"
  shows "np_mean_axis0 w [r] = r" and "np_std_axis0 w [r] = replicate w 0"
proof -
  show "np_mean_axis0 w [r] = r"
    using assms by (intro nth_equalityI) (simp_all add: np_mean_axis0_def column_def np_mean_def)
  show "np_std_axis0 w [r] = replicate w 0"
    by (intro nth_equalityI) (simp_all add: np_std_axis0_def column_def np_std_def np_mean_def)
qed

lemma comprehension_ok:
  "(\<And>a. a \<in> set as \<Longrightarrow> \<exists>v. f a = Inr v \<and> P v) \<Longrightarrow>
    \<exists>vs. comprehension f as = Inr vs \<and> length vs = length as \<and> (\<forall>v\<in>set vs. P v)"
proof (induction as)
  case Nil
  then show ?case by simp
next
  case (Cons a as)
  from Cons.prems [of a] obtain v where v: "f a = Inr v" "P v" by auto
  from Cons.IH Cons.prems obtain vs where
    "comprehension f as = Inr vs" "length vs = length as" "\<forall>v\<in>set vs. P v"
    by auto
  with v show ?case by simp
qed

lemma trial_ok:
  assumes "0 < K" and "length means = K" and "length variances = K" and "best_arm < K"
  shows "\<exists>v. trial T K means variances best_arm d i = Inr v
    \<and> length (fst v) = T + 1 \<and> length (fst (snd v)) = T + 1 \<and> length (snd (snd v)) = T + 1"
  using known_run(1,2) [OF assms, of T "known_rewards d i"]
    unknown_run(1,2) [OF assms, of T "unknown_rewards d i"]
    standard_run(1,2) [OF assms, of T "standard_rewards d i"]
  by (simp add: trial_def regret_of_pulls_props(1))

lemma sum_list_map_nth:
  "sum_list (map g xs) = (\<Sum>i = 0..<length xs. g (xs ! i))"
proof -
  have "sum_list (map g xs) = (\<Sum>i = 0..<length (map g xs). map g xs ! i)"
    by (rule sum_list_sum_nth)
  also have "\<dots> = (\<Sum>i = 0..<length xs. g (xs ! i))"
    by (intro sum.cong) simp_all
  finally show ?thesis .
qed

lemma axis0_map_nth:
  assumes "t < w"
  shows "np_mean_axis0 w (map p rows) ! t =
      (\<Sum>i = 0..<length rows. p (rows ! i) ! t) / real (length rows)"
    and "np_std_axis0 w (map p rows) ! t =
      sqrt ((\<Sum>i = 0..<length rows. (p (rows ! i) ! t - np_mean_axis0 w (map p rows) ! t) ^ 2)
            / real (length rows))"
proof -
  have col: "column (map p rows) t = map (\<lambda>r. p r ! t) rows"
    by (simp add: column_def)
  from assms show m: "np_mean_axis0 w (map p rows) ! t =
      (\<Sum>i = 0..<length rows. p (rows ! i) ! t) / real (length rows)"
    by (simp add: np_mean_axis0_def col np_mean_def sum_list_map_nth)
  have "np_std (column (map p rows) t) =
      sqrt (sum_list (map (\<lambda>r. (p r ! t - np_mean (column (map p rows) t)) ^ 2) rows)
            / real (length rows))"
    by (simp add: np_std_def col np_mean_def comp_def)
  also have "np_mean (column (map p rows) t) = np_mean_axis0 w (map p rows) ! t"
    using assms by (simp add: np_mean_axis0_def)
  finally show "np_std_axis0 w (map p rows) ! t =
      sqrt ((\<Sum>i = 0..<length rows. (p (rows ! i) ! t - np_mean_axis0 w (map p rows) ! t) ^ 2)
            / real (length rows))"
    using assms by (simp add: np_std_axis0_def sum_list_map_nth)
qed

lemma axis0_map_single:
  assumes "length rows = 1" and "length (p (rows ! 0)) = w"
  shows "np_mean_axis0 w (map p rows) = p (rows ! 0)"
    and "np_std_axis0 w (map p rows) = replicate w 0"
proof -
  from assms(1) obtain v where "rows = [v]"
    by (cases rows) simp_all
  with axis0_single [OF assms(2)]
  show "np_mean_axis0 w (map p rows) = p (rows ! 0)"
    and "np_std_axis0 w (map p rows) = replicate w 0"
    by simp_all
qed

lemma comprehension_nth:
  "comprehension f as = Inr vs \<Longrightarrow>
    length vs = length as \<and> (\<forall>i<length as. f (as ! i) = Inr (vs ! i))"
proof (induction as arbitrary: vs)
  case Nil
  then show ?case by simp
next
  case (Cons a as)
  from Cons.prems obtain v ws where
    v: "f a = Inr v" and ws: "comprehension f as = Inr ws" and vs: "vs = v # ws"
    by (auto split: sum.splits)
  from Cons.IH [OF ws] have "length ws = length as" "\<forall>i<length as. f (as ! i) = Inr (ws ! i)"
    by simp_all
  with v vs show ?case by (auto simp: nth_Cons split: nat.splits)
qed

lemma trial_components:
  assumes "trial T K means variances best_arm d i = Inr v"
  shows "known_variance_ucb T K means variances best_arm (known_rewards d i) = Inr (fst v)"
    and "unknown_variance_ucb T K means variances best_arm (unknown_rewards d i) =
      Inr (fst (snd v))"
    and "standard_ucb T K means variances best_arm (standard_rewards d i) = Inr (snd (snd v))"
  using assms by (auto simp: trial_def split: sum.splits)

lemma run_trials_ok:
  assumes "0 < K" and "length means = K" and "length variances = K" and "best_arm < K"
  shows "\<exists>rows. run_trials T N K means variances best_arm d = Inr rows
    \<and> length rows = N
    \<and> (\<forall>v\<in>set rows. length (fst v) = T + 1 \<and> length (fst (snd v)) = T + 1
          \<and> length (snd (snd v)) = T + 1)
    \<and> (\<forall>i<N. trial T K means variances best_arm d i = Inr (rows ! i))"
proof -
  have "\<exists>rows. comprehension (trial T K means variances best_arm d) [0..<N] = Inr rows
      \<and> length rows = length [0..<N]
      \<and> (\<forall>v\<in>set rows. length (fst v) = T + 1 \<and> length (fst (snd v)) = T + 1
            \<and> length (snd (snd v)) = T + 1)"
    by (rule comprehension_ok) (rule trial_ok [OF assms])
  then obtain rows where
    rows: "comprehension (trial T K means variances best_arm d) [0..<N] = Inr rows"
      "length rows = N"
      "\<forall>v\<in>set rows. length (fst v) = T + 1 \<and> length (fst (snd v)) = T + 1
          \<and> length (snd (snd v)) = T + 1"
    by auto
  from comprehension_nth [OF rows(1)]
  have "\<forall>i<N. trial T K means variances best_arm d i = Inr (rows ! i)"
    by simp
  with rows show ?thesis by (simp add: run_trials_def)
qed

text \<open>
  C8. On an instance of \<open>K \<ge> 1\<close> arms and with \<open>N \<ge> 1\<close> trials, the loop over the trials
  fills row \<open>i\<close> of each matrix with the trace that the policy returns in trial \<open>i\<close>, and
  the aggregation gives, for each policy, two sequences of \<open>T + 1\<close> entries: entry \<open>t\<close> is
  the mean over the \<open>N\<close> trials of the traces' entries \<open>t\<close>, and the square root of the
  mean squared deviation from that mean. With \<open>N = 1\<close> the mean sequence is the trace of
  the one trial and the standard deviation is 0 at every round.
\<close>

theorem aggregation_pointwise:
  assumes "0 < K" and "length means = K" and "length variances = K" and "best_arm < K"
    and "1 \<le> N"
  shows "\<exists>rows out. run_trials T N K means variances best_arm d = Inr rows
    \<and> aggregate T rows = out
    \<and> length rows = N
    \<and> (\<forall>i<N.
          known_variance_ucb T K means variances best_arm (known_rewards d i) =
            Inr (fst (rows ! i))
        \<and> unknown_variance_ucb T K means variances best_arm (unknown_rewards d i) =
            Inr (fst (snd (rows ! i)))
        \<and> standard_ucb T K means variances best_arm (standard_rewards d i) =
            Inr (snd (snd (rows ! i))))
    \<and> length (known_avg out) = T + 1 \<and> length (known_std out) = T + 1
    \<and> length (unknown_avg out) = T + 1 \<and> length (unknown_std out) = T + 1
    \<and> length (standard_avg out) = T + 1 \<and> length (standard_std out) = T + 1
    \<and> (\<forall>t\<le>T.
          known_avg out ! t = (\<Sum>i = 0..<N. fst (rows ! i) ! t) / real N
        \<and> known_std out ! t =
            sqrt ((\<Sum>i = 0..<N. (fst (rows ! i) ! t - known_avg out ! t) ^ 2) / real N)
        \<and> unknown_avg out ! t = (\<Sum>i = 0..<N. fst (snd (rows ! i)) ! t) / real N
        \<and> unknown_std out ! t =
            sqrt ((\<Sum>i = 0..<N. (fst (snd (rows ! i)) ! t - unknown_avg out ! t) ^ 2) / real N)
        \<and> standard_avg out ! t = (\<Sum>i = 0..<N. snd (snd (rows ! i)) ! t) / real N
        \<and> standard_std out ! t =
            sqrt ((\<Sum>i = 0..<N. (snd (snd (rows ! i)) ! t - standard_avg out ! t) ^ 2) / real N))
    \<and> (N = 1 \<longrightarrow>
          known_avg out = fst (rows ! 0) \<and> known_std out = replicate (T + 1) 0
        \<and> unknown_avg out = fst (snd (rows ! 0)) \<and> unknown_std out = replicate (T + 1) 0
        \<and> standard_avg out = snd (snd (rows ! 0)) \<and> standard_std out = replicate (T + 1) 0)"
proof -
  from run_trials_ok [OF assms(1-4), of T N d] obtain rows where
    run: "run_trials T N K means variances best_arm d = Inr rows" "length rows = N"
    and len: "\<forall>v\<in>set rows. length (fst v) = T + 1 \<and> length (fst (snd v)) = T + 1
          \<and> length (snd (snd v)) = T + 1"
    and tr: "\<forall>i<N. trial T K means variances best_arm d i = Inr (rows ! i)"
    by blast
  define out where "out = aggregate T rows"
  have k: "known_avg out = np_mean_axis0 (T + 1) (map fst rows)"
      "known_std out = np_std_axis0 (T + 1) (map fst rows)"
    and u: "unknown_avg out = np_mean_axis0 (T + 1) (map (\<lambda>r. fst (snd r)) rows)"
      "unknown_std out = np_std_axis0 (T + 1) (map (\<lambda>r. fst (snd r)) rows)"
    and s: "standard_avg out = np_mean_axis0 (T + 1) (map (\<lambda>r. snd (snd r)) rows)"
      "standard_std out = np_std_axis0 (T + 1) (map (\<lambda>r. snd (snd r)) rows)"
    by (simp_all add: out_def aggregate_def Let_def)
  have traces: "\<forall>i<N.
        known_variance_ucb T K means variances best_arm (known_rewards d i) =
          Inr (fst (rows ! i))
      \<and> unknown_variance_ucb T K means variances best_arm (unknown_rewards d i) =
          Inr (fst (snd (rows ! i)))
      \<and> standard_ucb T K means variances best_arm (standard_rewards d i) =
          Inr (snd (snd (rows ! i)))"
  proof (intro allI impI)
    fix i assume "i < N"
    with tr have "trial T K means variances best_arm d i = Inr (rows ! i)" by simp
    from trial_components [OF this]
    show "known_variance_ucb T K means variances best_arm (known_rewards d i) =
          Inr (fst (rows ! i))
      \<and> unknown_variance_ucb T K means variances best_arm (unknown_rewards d i) =
          Inr (fst (snd (rows ! i)))
      \<and> standard_ucb T K means variances best_arm (standard_rewards d i) =
          Inr (snd (snd (rows ! i)))"
      by simp
  qed
  have lens: "length (known_avg out) = T + 1 \<and> length (known_std out) = T + 1
    \<and> length (unknown_avg out) = T + 1 \<and> length (unknown_std out) = T + 1
    \<and> length (standard_avg out) = T + 1 \<and> length (standard_std out) = T + 1"
    by (simp add: k u s np_mean_axis0_def np_std_axis0_def)
  have point: "\<forall>t\<le>T.
        known_avg out ! t = (\<Sum>i = 0..<N. fst (rows ! i) ! t) / real N
      \<and> known_std out ! t =
          sqrt ((\<Sum>i = 0..<N. (fst (rows ! i) ! t - known_avg out ! t) ^ 2) / real N)
      \<and> unknown_avg out ! t = (\<Sum>i = 0..<N. fst (snd (rows ! i)) ! t) / real N
      \<and> unknown_std out ! t =
          sqrt ((\<Sum>i = 0..<N. (fst (snd (rows ! i)) ! t - unknown_avg out ! t) ^ 2) / real N)
      \<and> standard_avg out ! t = (\<Sum>i = 0..<N. snd (snd (rows ! i)) ! t) / real N
      \<and> standard_std out ! t =
          sqrt ((\<Sum>i = 0..<N. (snd (snd (rows ! i)) ! t - standard_avg out ! t) ^ 2) / real N)"
  proof (intro allI impI)
    fix t assume "t \<le> T"
    then have t: "t < T + 1" by simp
    show "known_avg out ! t = (\<Sum>i = 0..<N. fst (rows ! i) ! t) / real N
      \<and> known_std out ! t =
          sqrt ((\<Sum>i = 0..<N. (fst (rows ! i) ! t - known_avg out ! t) ^ 2) / real N)
      \<and> unknown_avg out ! t = (\<Sum>i = 0..<N. fst (snd (rows ! i)) ! t) / real N
      \<and> unknown_std out ! t =
          sqrt ((\<Sum>i = 0..<N. (fst (snd (rows ! i)) ! t - unknown_avg out ! t) ^ 2) / real N)
      \<and> standard_avg out ! t = (\<Sum>i = 0..<N. snd (snd (rows ! i)) ! t) / real N
      \<and> standard_std out ! t =
          sqrt ((\<Sum>i = 0..<N. (snd (snd (rows ! i)) ! t - standard_avg out ! t) ^ 2) / real N)"
      unfolding k u s
      using axis0_map_nth [OF t, of fst rows]
        axis0_map_nth [OF t, of "\<lambda>r. fst (snd r)" rows]
        axis0_map_nth [OF t, of "\<lambda>r. snd (snd r)" rows] run(2)
      by simp
  qed
  have single: "known_avg out = fst (rows ! 0) \<and> known_std out = replicate (T + 1) 0
      \<and> unknown_avg out = fst (snd (rows ! 0)) \<and> unknown_std out = replicate (T + 1) 0
      \<and> standard_avg out = snd (snd (rows ! 0)) \<and> standard_std out = replicate (T + 1) 0"
    if "N = 1"
  proof -
    from that run(2) have one: "length rows = 1" by simp
    then have "rows ! 0 \<in> set rows" by (intro nth_mem) simp
    with len have l: "length (fst (rows ! 0)) = T + 1" "length (fst (snd (rows ! 0))) = T + 1"
      "length (snd (snd (rows ! 0))) = T + 1"
      by simp_all
    show ?thesis
      unfolding k u s
      using axis0_map_single [OF one, of fst, OF l(1)]
        axis0_map_single [OF one, of "\<lambda>r. fst (snd r)", OF l(2)]
        axis0_map_single [OF one, of "\<lambda>r. snd (snd r)", OF l(3)]
      by simp
  qed
  from run traces lens point single out_def show ?thesis by blast
qed

theorem aggregation_pointwise_witness:
  "\<exists>rows. run_trials 4 1 2 [1 / 2, 1 / 4] [6, 7] 0
        \<lparr>mean_draws = \<lambda>a. 1 / 2, variance_draws = \<lambda>a. 1 / 2, known_rewards = \<lambda>i t. 1,
         unknown_rewards = \<lambda>i t. 1, standard_rewards = \<lambda>i t. 1\<rparr> = Inr rows
    \<and> length rows = 1
    \<and> known_avg (aggregate 4 rows) = fst (rows ! 0)
    \<and> known_std (aggregate 4 rows) = replicate (4 + 1) 0
    \<and> unknown_avg (aggregate 4 rows) = fst (snd (rows ! 0))
    \<and> unknown_std (aggregate 4 rows) = replicate (4 + 1) 0
    \<and> standard_avg (aggregate 4 rows) = snd (snd (rows ! 0))
    \<and> standard_std (aggregate 4 rows) = replicate (4 + 1) 0"
proof -
  from aggregation_pointwise [of 2 "[1 / 2, 1 / 4]" "[6, 7]" 0 1 4
      "\<lparr>mean_draws = \<lambda>a. 1 / 2, variance_draws = \<lambda>a. 1 / 2, known_rewards = \<lambda>i t. 1,
        unknown_rewards = \<lambda>i t. 1, standard_rewards = \<lambda>i t. 1\<rparr>"]
  obtain rows where
    "run_trials 4 1 2 [1 / 2, 1 / 4] [6, 7] 0
        \<lparr>mean_draws = \<lambda>a. 1 / 2, variance_draws = \<lambda>a. 1 / 2, known_rewards = \<lambda>i t. 1,
         unknown_rewards = \<lambda>i t. 1, standard_rewards = \<lambda>i t. 1\<rparr> = Inr rows"
    "length rows = 1"
    "known_avg (aggregate 4 rows) = fst (rows ! 0)"
    "known_std (aggregate 4 rows) = replicate (4 + 1) 0"
    "unknown_avg (aggregate 4 rows) = fst (snd (rows ! 0))"
    "unknown_std (aggregate 4 rows) = replicate (4 + 1) 0"
    "standard_avg (aggregate 4 rows) = snd (snd (rows ! 0))"
    "standard_std (aggregate 4 rows) = replicate (4 + 1) 0"
    by auto
  then show ?thesis by blast
qed

subsection \<open>known_variance_ucb against standard_ucb\<close>

lemma np_argmax_less: "np_argmax xs = Inr r \<Longrightarrow> r < length xs"
proof -
  assume r: "np_argmax xs = Inr r"
  then have "xs \<noteq> []" by (auto simp: np_argmax_def)
  from np_argmax_first_max [OF this] r show ?thesis by auto
qed

lemma run_rounds_cong:
  assumes "\<And>t u. P u \<Longrightarrow> f t u = g t u" and "\<And>t u u'. P u \<Longrightarrow> f t u = Inr u' \<Longrightarrow> P u'"
  shows "P s \<Longrightarrow> run_rounds f ts s = run_rounds g ts s"
proof (induction ts arbitrary: s)
  case Nil
  show ?case by simp
next
  case (Cons t ts)
  from assms(1) [OF Cons.prems] have fg: "f t s = g t s" .
  show ?case
  proof (cases "f t s")
    case (Inl e)
    with fg have "g t s = Inl e" by simp
    with Inl show ?thesis by simp
  next
    case (Inr u)
    from assms(2) [OF Cons.prems Inr] have "P u" .
    from Cons.IH [OF this] Inr fg show ?thesis by simp
  qed
qed

lemma known_round_eq_spec:
  assumes "K \<le> length variances" and "length (counts s) = K"
  shows "known_round T K means variances best_arm rewards t s =
    spec_ucb_round (\<lambda>s a. sqrt (4 * variances ! a * ln (real T) / real (counts s ! a)))
      K means variances best_arm rewards t s"
proof (cases "known_select T K variances s")
  case (Inl e)
  then show ?thesis
    by (simp add: known_round_def spec_ucb_round_def known_select_eq [OF assms(1), symmetric])
next
  case (Inr arm)
  then have "arm < K"
    using np_argmax_less by (fastforce simp: known_select_eq [OF assms(1)])
  with assms(2) have "(counts s)[arm := counts s ! arm + 1] ! arm = counts s ! arm + 1"
    by simp
  with Inr show ?thesis
    by (simp add: known_round_def spec_ucb_round_def known_select_eq [OF assms(1), symmetric]
        Let_def)
qed

lemma standard_round_eq_spec:
  assumes "length (counts s) = K"
  shows "standard_round T K means variances best_arm rewards t s =
    spec_ucb_round (\<lambda>s a. sqrt (4 * ln (real T) / real (counts s ! a)))
      K means variances best_arm rewards t s"
proof -
  have idx: "map (\<lambda>a. if counts s ! a = 0 then PInf
                       else Num (emp_means s ! a + sqrt (4 * ln (real T) / real (counts s ! a))))
               [0..<K] = map (standard_index T s) [0..<K]"
    by (simp add: standard_index_def)
  show ?thesis
  proof (cases "standard_select T K s")
    case (Inl e)
    then show ?thesis
      by (simp add: standard_round_def spec_ucb_round_def idx standard_select_def [symmetric])
  next
    case (Inr arm)
    then have "arm < K"
      using np_argmax_less by (fastforce simp: standard_select_def)
    with assms have "(counts s)[arm := counts s ! arm + 1] ! arm = counts s ! arm + 1"
      by simp
    with Inr show ?thesis
      by (simp add: standard_round_def spec_ucb_round_def idx standard_select_def [symmetric]
          Let_def)
  qed
qed

lemma known_round_length:
  "known_round T K means variances best_arm rewards t s = Inr s' \<Longrightarrow>
    length (counts s') = length (counts s)"
  by (auto simp: known_round_def Let_def split: sum.splits if_splits)

lemma standard_round_length:
  "standard_round T K means variances best_arm rewards t s = Inr s' \<Longrightarrow>
    length (counts s') = length (counts s)"
  by (auto simp: standard_round_def Let_def split: sum.splits if_splits)

text \<open>
  C5. With variances of length \<open>K\<close>, \<open>known_variance_ucb\<close> and \<open>standard_ucb\<close> are the
  same control flow (infinity for an arm never pulled, first-maximum selection, incremental
  mean, regret accumulation), run with two exploration widths: for an arm with count
  \<open>n \<ge> 1\<close> the known-variance index is \<open>emp_means[a] + sqrt(4 variances[a] ln T / n)\<close>,
  with the variance passed in, where the standard index is
  \<open>emp_means[a] + sqrt(4 ln T / n)\<close>.
\<close>

theorem known_is_standard_with_true_variance:
  assumes "length variances = K"
  shows "known_variance_ucb T K means variances best_arm rewards =
      spec_ucb_policy (\<lambda>s a. sqrt (4 * variances ! a * ln (real T) / real (counts s ! a)))
        T K means variances best_arm rewards
    \<and> standard_ucb T K means variances best_arm rewards =
      spec_ucb_policy (\<lambda>s a. sqrt (4 * ln (real T) / real (counts s ! a)))
        T K means variances best_arm rewards
    \<and> (\<forall>s a. a < K \<longrightarrow>
          known_index T variances s a =
            Inr (if counts s ! a = 0 then PInf
                 else Num (emp_means s ! a
                           + sqrt (4 * variances ! a * ln (real T) / real (counts s ! a)))))
    \<and> (\<forall>s. known_select T K variances s =
          np_argmax (map (\<lambda>a. if counts s ! a = 0 then PInf
                              else Num (emp_means s ! a
                                     + sqrt (4 * variances ! a * ln (real T) / real (counts s ! a))))
                       [0..<K]))"
proof -
  from assms have K: "K \<le> length variances" by simp
  have init: "length (counts (init_state T K)) = K" by (simp add: init_state_def)
  have k: "run_rounds (known_round T K means variances best_arm rewards) [1..<T + 1]
        (init_state T K) =
      run_rounds
        (spec_ucb_round (\<lambda>s a. sqrt (4 * variances ! a * ln (real T) / real (counts s ! a)))
           K means variances best_arm rewards) [1..<T + 1] (init_state T K)"
  proof (rule run_rounds_cong [where P = "\<lambda>s. length (counts s) = K"])
    show "length (counts (init_state T K)) = K" by (rule init)
  next
    fix t :: nat and u :: ucb_state
    assume "length (counts u) = K"
    then show "known_round T K means variances best_arm rewards t u =
        spec_ucb_round (\<lambda>s a. sqrt (4 * variances ! a * ln (real T) / real (counts s ! a)))
          K means variances best_arm rewards t u"
      by (rule known_round_eq_spec [OF K])
  next
    fix t :: nat and u u' :: ucb_state
    assume "length (counts u) = K" "known_round T K means variances best_arm rewards t u = Inr u'"
    then show "length (counts u') = K" using known_round_length by fastforce
  qed
  have s: "run_rounds (standard_round T K means variances best_arm rewards) [1..<T + 1]
        (init_state T K) =
      run_rounds
        (spec_ucb_round (\<lambda>s a. sqrt (4 * ln (real T) / real (counts s ! a)))
           K means variances best_arm rewards) [1..<T + 1] (init_state T K)"
  proof (rule run_rounds_cong [where P = "\<lambda>s. length (counts s) = K"])
    show "length (counts (init_state T K)) = K" by (rule init)
  next
    fix t :: nat and u :: ucb_state
    assume "length (counts u) = K"
    then show "standard_round T K means variances best_arm rewards t u =
        spec_ucb_round (\<lambda>s a. sqrt (4 * ln (real T) / real (counts s ! a)))
          K means variances best_arm rewards t u"
      by (rule standard_round_eq_spec)
  next
    fix t :: nat and u u' :: ucb_state
    assume "length (counts u) = K" "standard_round T K means variances best_arm rewards t u = Inr u'"
    then show "length (counts u') = K" using standard_round_length by fastforce
  qed
  have idx: "\<forall>s a. a < K \<longrightarrow>
      known_index T variances s a =
        Inr (if counts s ! a = 0 then PInf
             else Num (emp_means s ! a
                       + sqrt (4 * variances ! a * ln (real T) / real (counts s ! a))))"
    using assms by (simp add: known_index_def py_index_def)
  from k s idx show ?thesis
    by (simp add: known_variance_ucb_def standard_ucb_def spec_ucb_policy_def
        known_select_eq [OF K])
qed

theorem known_is_standard_with_true_variance_witness:
  "known_variance_ucb 3 2 [4 / 5, 1 / 5] [2, 3] 0 (\<lambda>t. real t) =
      spec_ucb_policy (\<lambda>s a. sqrt (4 * [2, 3] ! a * ln (real 3) / real (counts s ! a)))
        3 2 [4 / 5, 1 / 5] [2, 3] 0 (\<lambda>t. real t)
    \<and> standard_ucb 3 2 [4 / 5, 1 / 5] [2, 3] 0 (\<lambda>t. real t) =
      spec_ucb_policy (\<lambda>s a. sqrt (4 * ln (real 3) / real (counts s ! a)))
        3 2 [4 / 5, 1 / 5] [2, 3] 0 (\<lambda>t. real t)"
  using known_is_standard_with_true_variance [of "[2, 3]" 2 3 "[4 / 5, 1 / 5]" 0 "\<lambda>t. real t"]
  by simp

subsection \<open>unknown_variance_ucb: the squared-deviation accumulator\<close>

text \<open>What one round of \<open>unknown_variance_ucb\<close> writes, \<open>arm\<close> being the arm it selects.\<close>

lemma unknown_round_update:
  assumes "unknown_select T K s = Inr arm"
    and "unknown_round T K means variances best_arm rewards t s = Inr s'"
  shows "counts s' = (counts s)[arm := counts s ! arm + 1]"
    and "emp_means s' =
      (emp_means s)[arm := emp_means s ! arm
         + (rewards t - emp_means s ! arm) / real ((counts s)[arm := counts s ! arm + 1] ! arm)]"
    and "M2 s' =
      (M2 s)[arm := M2 s ! arm
         + (rewards t - emp_means s ! arm) * (rewards t - emp_means s' ! arm)]"
    and "emp_vars s' =
      (if (counts s)[arm := counts s ! arm + 1] ! arm > 1
       then (emp_vars s)[arm := M2 s' ! arm
              / (real ((counts s)[arm := counts s ! arm + 1] ! arm) - 1)]
       else emp_vars s)"
  using assms by (auto simp: unknown_round_def Let_def split: if_splits)

lemma welford_increment:
  fixes r m :: real
  assumes "0 < n"
  shows "(r - m) * (r - (m + (r - m) / real n)) = (r - m) ^ 2 * (1 - 1 / real n)"
  using assms by (simp add: field_simps power2_eq_square)

lemma welford_increment_nonneg:
  fixes d :: real
  assumes "0 < n"
  shows "0 \<le> d ^ 2 * (1 - 1 / real n)"
proof -
  from assms have "1 / real n \<le> 1" by simp
  then show ?thesis by simp
qed

lemma unknown_round_M2:
  assumes "length (counts s) = K" and "length (emp_means s) = K"
    and "length (emp_vars s) = K" and "length (M2 s) = K"
    and "unknown_select T K s = Inr arm" and "arm < K"
    and "unknown_round T K means variances best_arm rewards t s = Inr s'"
  shows "M2 s' ! arm =
      M2 s ! arm + (rewards t - emp_means s ! arm) ^ 2 * (1 - 1 / real (counts s ! arm + 1))"
    and "\<forall>a<K. a \<noteq> arm \<longrightarrow> M2 s' ! a = M2 s ! a \<and> emp_vars s' ! a = emp_vars s ! a"
    and "emp_vars s' ! arm =
      (if 1 \<le> counts s ! arm then M2 s' ! arm / real (counts s ! arm) else emp_vars s ! arm)"
proof -
  note upd = unknown_round_update [OF assms(5,7)]
  from assms(1,6) have n: "(counts s)[arm := counts s ! arm + 1] ! arm = counts s ! arm + 1"
    by simp
  from assms(2,6) have m: "emp_means s' ! arm =
      emp_means s ! arm + (rewards t - emp_means s ! arm) / real (counts s ! arm + 1)"
    unfolding upd(2) n by simp
  from assms(4,6) have "M2 s' ! arm = M2 s ! arm
      + (rewards t - emp_means s ! arm) * (rewards t - emp_means s' ! arm)"
    by (subst upd(3)) simp
  also have "(rewards t - emp_means s ! arm) * (rewards t - emp_means s' ! arm) =
      (rewards t - emp_means s ! arm) ^ 2 * (1 - 1 / real (counts s ! arm + 1))"
    unfolding m by (rule welford_increment) simp
  finally show "M2 s' ! arm =
      M2 s ! arm + (rewards t - emp_means s ! arm) ^ 2 * (1 - 1 / real (counts s ! arm + 1))" .
  show "\<forall>a<K. a \<noteq> arm \<longrightarrow> M2 s' ! a = M2 s ! a \<and> emp_vars s' ! a = emp_vars s ! a"
  proof (intro allI impI)
    fix a assume "a < K" "a \<noteq> arm"
    then have "M2 s' ! a = M2 s ! a" by (subst upd(3)) simp
    moreover from \<open>a \<noteq> arm\<close> have "emp_vars s' ! a = emp_vars s ! a"
      by (subst upd(4)) simp
    ultimately show "M2 s' ! a = M2 s ! a \<and> emp_vars s' ! a = emp_vars s ! a" by simp
  qed
  from assms(1,3,6) show "emp_vars s' ! arm =
      (if 1 \<le> counts s ! arm then M2 s' ! arm / real (counts s ! arm) else emp_vars s ! arm)"
    by (subst upd(4)) auto
qed

lemma unknown_round_nonneg:
  assumes "0 < K" and "length means = K" and "length variances = K" and "best_arm < K"
    and "(length (counts s) = K \<and> length (emp_means s) = K
          \<and> length (emp_vars s) = K \<and> length (M2 s) = K)
        \<and> (\<forall>a<K. 0 \<le> M2 s ! a \<and> 0 \<le> emp_vars s ! a)"
    and "unknown_round T K means variances best_arm rewards t s = Inr s'"
  shows "(length (counts s') = K \<and> length (emp_means s') = K
          \<and> length (emp_vars s') = K \<and> length (M2 s') = K)
        \<and> (\<forall>a<K. 0 \<le> M2 s' ! a \<and> 0 \<le> emp_vars s' ! a)"
proof -
  from assms(5) have good: "length (counts s) = K \<and> length (emp_means s) = K
      \<and> length (emp_vars s) = K \<and> length (M2 s) = K"
    and nn: "\<forall>a<K. 0 \<le> M2 s ! a \<and> 0 \<le> emp_vars s ! a"
    by simp_all
  from unknown_round_spec [OF assms(1-4), of T rewards] good assms(6) obtain arm where
    arm: "unknown_select T K s = Inr arm" "arm < K"
    and good': "length (counts s') = K \<and> length (emp_means s') = K
      \<and> length (emp_vars s') = K \<and> length (M2 s') = K"
    unfolding round_spec_def by (metis sum.inject(2))
  from good have l: "length (counts s) = K" "length (emp_means s) = K"
    "length (emp_vars s) = K" "length (M2 s) = K"
    by simp_all
  note st = unknown_round_M2 [OF l arm assms(6)]
  have inc: "0 \<le> (rewards t - emp_means s ! arm) ^ 2 * (1 - 1 / real (counts s ! arm + 1))"
    by (rule welford_increment_nonneg) simp
  with nn arm(2) st(1) have M: "0 \<le> M2 s' ! arm" by simp
  have V: "0 \<le> emp_vars s' ! arm"
    unfolding st(3) using M nn arm(2) by simp
  have "\<forall>a<K. 0 \<le> M2 s' ! a \<and> 0 \<le> emp_vars s' ! a"
  proof (intro allI impI)
    fix a assume a: "a < K"
    show "0 \<le> M2 s' ! a \<and> 0 \<le> emp_vars s' ! a"
    proof (cases "a = arm")
      case True
      with M V show ?thesis by simp
    next
      case False
      with st(2) a nn show ?thesis by simp
    qed
  qed
  with good' show ?thesis by simp
qed

text \<open>
  C10. In a run of \<open>unknown_variance_ucb\<close> with at least one arm, round \<open>t\<close> of \<open>1..T\<close>
  takes the state \<open>s\<close> left by the rounds before to a state \<open>s'\<close>, pulling an arm whose
  count becomes \<open>n\<close>: it adds \<open>delta\<^sup>2 * (1 - 1 / n)\<close> to \<open>M2\<close> of that arm, with
  \<open>delta\<close> the reward minus the mean before the update, which is not negative, and leaves
  \<open>M2\<close> of every other arm as it is. \<open>M2\<close> and \<open>emp_vars\<close> of every arm are not negative
  in \<open>s\<close>, where the index takes the square root of \<open>emp_vars\<close>, and in \<open>s'\<close>; before
  the first round they are 0 and 1.
\<close>

theorem M2_increment_nonnegative:
  assumes "1 \<le> K" and "length means = K" and "length variances = K" and "best_arm < K"
    and "1 \<le> t" and "t \<le> T"
  shows "\<exists>s s' arm. unknown_state_after T K means variances best_arm rewards (t - 1) = Inr s
      \<and> unknown_state_after T K means variances best_arm rewards t = Inr s'
      \<and> unknown_select T K s = Inr arm \<and> arm < K
      \<and> unknown_pulls T K means variances best_arm rewards ! (t - 1) = arm
      \<and> M2 s' ! arm - M2 s ! arm =
          (rewards t - emp_means s ! arm) ^ 2 * (1 - 1 / real (counts s ! arm + 1))
      \<and> 0 \<le> M2 s' ! arm - M2 s ! arm
      \<and> (\<forall>a<K. a \<noteq> arm \<longrightarrow> M2 s' ! a = M2 s ! a)
      \<and> (\<forall>a<K. 0 \<le> M2 s ! a \<and> 0 \<le> emp_vars s ! a \<and> 0 \<le> M2 s' ! a \<and> 0 \<le> emp_vars s' ! a)
      \<and> unknown_state_after T K means variances best_arm rewards 0 = Inr (init_unknown T K)
      \<and> (\<forall>a<K. M2 (init_unknown T K) ! a = 0 \<and> emp_vars (init_unknown T K) ! a = 1)"
proof -
  from assms(1) have K: "0 < K" by simp
  let ?P = "\<lambda>s::unknown_state. (length (counts s) = K \<and> length (emp_means s) = K
          \<and> length (emp_vars s) = K \<and> length (M2 s) = K)
        \<and> (\<forall>a<K. 0 \<le> M2 s ! a \<and> 0 \<le> emp_vars s ! a)"
  have good: "length (counts (init_unknown T K)) = K \<and> length (emp_means (init_unknown T K)) = K
      \<and> length (emp_vars (init_unknown T K)) = K \<and> length (M2 (init_unknown T K)) = K"
    by (simp add: init_unknown_def)
  have init: "\<forall>a<K. M2 (init_unknown T K) ! a = 0 \<and> emp_vars (init_unknown T K) ! a = 1"
    by (simp add: init_unknown_def)
  with good have P0: "?P (init_unknown T K)" by simp
  from assms(5) have t1: "t - 1 + 1 = t" by simp
  note spec = unknown_round_spec [OF K assms(2-4), of T rewards]
  from state_before_round [OF spec good assms(5,6)]
  obtain s where
    s: "unknown_state_after T K means variances best_arm rewards (t - 1) = Inr s"
      "length (counts s) = K \<and> length (emp_means s) = K
        \<and> length (emp_vars s) = K \<and> length (M2 s) = K"
      "unknown_select T K s =
         Inr (unknown_pulls T K means variances best_arm rewards ! (t - 1))"
      "unknown_state_after T K means variances best_arm rewards t =
         unknown_round T K means variances best_arm rewards t s"
    unfolding unknown_state_after_def unknown_pulls_def t1 by blast
  define arm where "arm = unknown_pulls T K means variances best_arm rewards ! (t - 1)"
  from spec s(2) s(3) obtain s' where
    s': "unknown_round T K means variances best_arm rewards t s = Inr s'" and arm: "arm < K"
    unfolding round_spec_def arm_def by (metis sum.inject(2))
  have Ps: "?P s"
    by (rule run_rounds_invariant [where P = ?P,
          OF s(1) [unfolded unknown_state_after_def] P0])
       (rule unknown_round_nonneg [OF K assms(2-4)])
  from unknown_round_nonneg [OF K assms(2-4) Ps s'] have Ps': "?P s'" .
  from s(2) have l: "length (counts s) = K" "length (emp_means s) = K"
    "length (emp_vars s) = K" "length (M2 s) = K"
    by simp_all
  note st = unknown_round_M2 [OF l s(3) [folded arm_def] arm s']
  have inc: "M2 s' ! arm - M2 s ! arm =
      (rewards t - emp_means s ! arm) ^ 2 * (1 - 1 / real (counts s ! arm + 1))"
    using st(1) by simp
  have nonneg: "0 \<le> M2 s' ! arm - M2 s ! arm"
    unfolding inc by (rule welford_increment_nonneg) simp
  have others: "\<forall>a<K. a \<noteq> arm \<longrightarrow> M2 s' ! a = M2 s ! a"
    using st(2) by simp
  have all: "\<forall>a<K. 0 \<le> M2 s ! a \<and> 0 \<le> emp_vars s ! a \<and> 0 \<le> M2 s' ! a \<and> 0 \<le> emp_vars s' ! a"
    using Ps Ps' by simp
  have zero: "unknown_state_after T K means variances best_arm rewards 0 = Inr (init_unknown T K)"
    by (simp add: unknown_state_after_def)
  from s(1) s(4) s' s(3) [folded arm_def] arm arm_def inc nonneg others all zero init
  show ?thesis by (intro exI [of _ s] exI [of _ s'] exI [of _ arm]) simp
qed

theorem M2_increment_nonnegative_witness:
  "\<exists>s s' arm. unknown_state_after 3 2 [4 / 5, 1 / 5] [1, 1] 0 (\<lambda>t. real t) (3 - 1) = Inr s
      \<and> unknown_state_after 3 2 [4 / 5, 1 / 5] [1, 1] 0 (\<lambda>t. real t) 3 = Inr s'
      \<and> unknown_select 3 2 s = Inr arm \<and> arm < 2
      \<and> M2 s' ! arm - M2 s ! arm =
          (real 3 - emp_means s ! arm) ^ 2 * (1 - 1 / real (counts s ! arm + 1))
      \<and> 0 \<le> M2 s' ! arm - M2 s ! arm
      \<and> (\<forall>a<2. 0 \<le> M2 s' ! a \<and> 0 \<le> emp_vars s' ! a)"
proof -
  from M2_increment_nonnegative [of 2 "[4 / 5, 1 / 5]" "[1, 1]" 0 3 3 "\<lambda>t. real t"]
  obtain s s' arm where
    "unknown_state_after 3 2 [4 / 5, 1 / 5] [1, 1] 0 (\<lambda>t. real t) (3 - 1) = Inr s"
    "unknown_state_after 3 2 [4 / 5, 1 / 5] [1, 1] 0 (\<lambda>t. real t) 3 = Inr s'"
    "unknown_select 3 2 s = Inr arm" "arm < 2"
    "M2 s' ! arm - M2 s ! arm =
       (real 3 - emp_means s ! arm) ^ 2 * (1 - 1 / real (counts s ! arm + 1))"
    "0 \<le> M2 s' ! arm - M2 s ! arm"
    "\<forall>a<2. 0 \<le> M2 s' ! a \<and> 0 \<le> emp_vars s' ! a"
    by auto
  then show ?thesis by blast
qed

subsection \<open>unknown_variance_ucb: the variance estimate\<close>

lemma arm_rewards_append:
  "arm_rewards a rewards t0 (arms @ [arm]) =
     arm_rewards a rewards t0 arms @ (if arm = a then [rewards (t0 + length arms)] else [])"
  by (induction arms arbitrary: t0) simp_all

lemma sum_sq_shift:
  fixes m c :: real
  shows "(\<Sum>x\<leftarrow>xs. (x - c) ^ 2) =
    (\<Sum>x\<leftarrow>xs. (x - m) ^ 2) + real (length xs) * (m - c) ^ 2
      + 2 * (m - c) * (sum_list xs - real (length xs) * m)"
  by (induction xs) (simp_all add: algebra_simps power2_eq_square)

lemma welford_step:
  fixes r m m' :: real
  assumes "sum_list xs = real (length xs) * m"
    and "m' = m + (r - m) / real (length xs + 1)"
  shows "sum_list (xs @ [r]) = real (length (xs @ [r])) * m'"
    and "(\<Sum>x\<leftarrow>xs @ [r]. (x - m') ^ 2) = (\<Sum>x\<leftarrow>xs. (x - m) ^ 2) + (r - m) * (r - m')"
proof -
  define n where "n = real (length xs)"
  have n: "0 \<le> n" "n + 1 \<noteq> 0" by (simp_all add: n_def)
  have m': "m' = m + (r - m) / (n + 1)"
    using assms(2) by (simp add: n_def add.commute)
  have eq: "(n + 1) * m' = n * m + r"
    unfolding m' using n(2) by (simp add: field_simps)
  show "sum_list (xs @ [r]) = real (length (xs @ [r])) * m'"
    using assms(1) eq by (simp add: n_def algebra_simps)
  have A: "(m - m') * (n + 1) = - (r - m)" and B: "(r - m') * (n + 1) = (r - m) * n"
    unfolding m' using n(2) by (simp_all add: field_simps)
  have "(n * (m - m') ^ 2 + (r - m') ^ 2) * (n + 1) ^ 2 =
      n * ((m - m') * (n + 1)) ^ 2 + ((r - m') * (n + 1)) ^ 2"
    by (simp add: power2_eq_square algebra_simps)
  also have "\<dots> = (r - m) * ((r - m) * n) * (n + 1)"
    unfolding A B by (simp add: power2_eq_square algebra_simps)
  also have "\<dots> = (r - m) * (r - m') * (n + 1) ^ 2"
    unfolding B [symmetric] by (simp add: power2_eq_square algebra_simps)
  finally have "n * (m - m') ^ 2 + (r - m') ^ 2 = (r - m) * (r - m')"
    using n(2) by simp
  moreover have "(\<Sum>x\<leftarrow>xs. (x - m') ^ 2) = (\<Sum>x\<leftarrow>xs. (x - m) ^ 2) + n * (m - m') ^ 2"
    using sum_sq_shift [of m' xs m] assms(1) by (simp add: n_def)
  ultimately show "(\<Sum>x\<leftarrow>xs @ [r]. (x - m') ^ 2) =
      (\<Sum>x\<leftarrow>xs. (x - m) ^ 2) + (r - m) * (r - m')"
    by simp
qed

lemma unknown_round_counts_means:
  assumes "length (counts s) = K" and "length (emp_means s) = K"
    and "length (emp_vars s) = K" and "length (M2 s) = K"
    and "unknown_select T K s = Inr arm" and "arm < K"
    and "unknown_round T K means variances best_arm rewards t s = Inr s'"
  shows "counts s' ! arm = counts s ! arm + 1"
    and "emp_means s' ! arm =
      emp_means s ! arm + (rewards t - emp_means s ! arm) / real (counts s ! arm + 1)"
    and "M2 s' ! arm =
      M2 s ! arm + (rewards t - emp_means s ! arm) * (rewards t - emp_means s' ! arm)"
    and "\<forall>a<K. a \<noteq> arm \<longrightarrow> counts s' ! a = counts s ! a \<and> emp_means s' ! a = emp_means s ! a"
proof -
  note upd = unknown_round_update [OF assms(5,7)]
  from assms(1,6) have n: "(counts s)[arm := counts s ! arm + 1] ! arm = counts s ! arm + 1"
    by simp
  from assms(1,6) show "counts s' ! arm = counts s ! arm + 1"
    by (subst upd(1)) simp
  from assms(2,6) show "emp_means s' ! arm =
      emp_means s ! arm + (rewards t - emp_means s ! arm) / real (counts s ! arm + 1)"
    unfolding upd(2) n by simp
  from assms(4,6) show "M2 s' ! arm =
      M2 s ! arm + (rewards t - emp_means s ! arm) * (rewards t - emp_means s' ! arm)"
    by (subst upd(3)) simp
  show "\<forall>a<K. a \<noteq> arm \<longrightarrow> counts s' ! a = counts s ! a \<and> emp_means s' ! a = emp_means s ! a"
  proof (intro allI impI)
    fix a assume "a < K" "a \<noteq> arm"
    then have "counts s' ! a = counts s ! a" by (subst upd(1)) simp
    moreover from \<open>a \<noteq> arm\<close> have "emp_means s' ! a = emp_means s ! a"
      by (subst upd(2)) simp
    ultimately show "counts s' ! a = counts s ! a \<and> emp_means s' ! a = emp_means s ! a"
      by simp
  qed
qed

text \<open>One round keeps, for every arm, the relation between the state and the list \<open>xs\<close>
  of the rewards the arm has received.\<close>

lemma welford_round:
  assumes "length (counts s) = K" and "length (emp_means s) = K"
    and "length (emp_vars s) = K" and "length (M2 s) = K"
    and "unknown_select T K s = Inr arm" and "arm < K"
    and "unknown_round T K means variances best_arm rewards t s = Inr s'"
    and "a < K"
    and "counts s ! a = length xs"
    and "sum_list xs = real (length xs) * emp_means s ! a"
    and "M2 s ! a = (\<Sum>x\<leftarrow>xs. (x - emp_means s ! a) ^ 2)"
    and "emp_vars s ! a = (if length xs \<le> 1 then 1 else M2 s ! a / (real (length xs) - 1))"
    and "xs' = xs @ (if arm = a then [rewards t] else [])"
  shows "counts s' ! a = length xs'
    \<and> sum_list xs' = real (length xs') * emp_means s' ! a
    \<and> M2 s' ! a = (\<Sum>x\<leftarrow>xs'. (x - emp_means s' ! a) ^ 2)
    \<and> emp_vars s' ! a = (if length xs' \<le> 1 then 1 else M2 s' ! a / (real (length xs') - 1))"
proof (cases "arm = a")
  case False
  then have xs': "xs' = xs" using assms(13) by simp
  from False assms(8) unknown_round_counts_means(4) [OF assms(1-7)]
  have "counts s' ! a = counts s ! a" "emp_means s' ! a = emp_means s ! a"
    by simp_all
  moreover from False assms(8) unknown_round_M2(2) [OF assms(1-7)]
  have "M2 s' ! a = M2 s ! a" "emp_vars s' ! a = emp_vars s ! a"
    by simp_all
  ultimately show ?thesis
    unfolding xs' using assms(9-12) by simp
next
  case True
  then have xs': "xs' = xs @ [rewards t]" using assms(13) by simp
  note cm = unknown_round_counts_means(1-3) [OF assms(1-7), unfolded True]
  note ev = unknown_round_M2(3) [OF assms(1-7), unfolded True]
  have m': "emp_means s' ! a =
      emp_means s ! a + (rewards t - emp_means s ! a) / real (length xs + 1)"
    using cm(2) assms(9) by simp
  note w = welford_step [OF assms(10) m']
  have c: "counts s' ! a = length xs'"
    using cm(1) assms(9) xs' by simp
  have s: "sum_list xs' = real (length xs') * emp_means s' ! a"
    unfolding xs' by (rule w(1))
  have M: "M2 s' ! a = (\<Sum>x\<leftarrow>xs'. (x - emp_means s' ! a) ^ 2)"
    unfolding xs' w(2) using cm(3) assms(11) by simp
  have V: "emp_vars s' ! a = (if length xs' \<le> 1 then 1 else M2 s' ! a / (real (length xs') - 1))"
  proof (cases "xs = []")
    case True
    with ev assms(9,12) xs' show ?thesis by simp
  next
    case False
    then have "1 \<le> length xs" by (cases xs) simp_all
    with False ev assms(9) xs' show ?thesis by simp
  qed
  from c s M V show ?thesis by simp
qed

lemma welford_invariant:
  assumes "0 < K" and "length means = K" and "length variances = K" and "best_arm < K"
    and "j \<le> T"
  shows "\<exists>s. unknown_state_after T K means variances best_arm rewards j = Inr s
    \<and> (length (counts s) = K \<and> length (emp_means s) = K
        \<and> length (emp_vars s) = K \<and> length (M2 s) = K)
    \<and> (\<forall>a<K.
          counts s ! a =
            length (arm_rewards a rewards 1
                      (take j (unknown_pulls T K means variances best_arm rewards)))
        \<and> sum_list (arm_rewards a rewards 1
                      (take j (unknown_pulls T K means variances best_arm rewards))) =
            real (length (arm_rewards a rewards 1
                            (take j (unknown_pulls T K means variances best_arm rewards))))
              * emp_means s ! a
        \<and> M2 s ! a =
            (\<Sum>x\<leftarrow>arm_rewards a rewards 1
                      (take j (unknown_pulls T K means variances best_arm rewards)).
               (x - emp_means s ! a) ^ 2)
        \<and> emp_vars s ! a =
            (if length (arm_rewards a rewards 1
                          (take j (unknown_pulls T K means variances best_arm rewards))) \<le> 1
             then 1
             else M2 s ! a
                  / (real (length (arm_rewards a rewards 1
                              (take j (unknown_pulls T K means variances best_arm rewards))))
                     - 1)))"
  using assms(5)
proof (induction j)
  case 0
  show ?case
    by (simp add: unknown_state_after_def init_unknown_def)
next
  case (Suc j)
  let ?pulls = "unknown_pulls T K means variances best_arm rewards"
  let ?R = "\<lambda>a j. arm_rewards a rewards 1 (take j ?pulls)"
  from Suc.prems have j: "j \<le> T" "j < T" by simp_all
  from Suc.IH [OF j(1)] obtain s where
    s: "unknown_state_after T K means variances best_arm rewards j = Inr s"
    and good: "length (counts s) = K \<and> length (emp_means s) = K
        \<and> length (emp_vars s) = K \<and> length (M2 s) = K"
    and inv: "\<forall>a<K. counts s ! a = length (?R a j)
        \<and> sum_list (?R a j) = real (length (?R a j)) * emp_means s ! a
        \<and> M2 s ! a = (\<Sum>x\<leftarrow>?R a j. (x - emp_means s ! a) ^ 2)
        \<and> emp_vars s ! a =
            (if length (?R a j) \<le> 1 then 1 else M2 s ! a / (real (length (?R a j)) - 1))"
    by blast
  have good0: "length (counts (init_unknown T K)) = K \<and> length (emp_means (init_unknown T K)) = K
      \<and> length (emp_vars (init_unknown T K)) = K \<and> length (M2 (init_unknown T K)) = K"
    by (simp add: init_unknown_def)
  note spec = unknown_round_spec [OF assms(1-4), of T rewards]
  have t: "1 \<le> Suc j" "Suc j \<le> T" using Suc.prems by simp_all
  from state_before_round [OF spec good0 t]
  have sel: "unknown_select T K s = Inr (?pulls ! j)"
    and nxt: "unknown_state_after T K means variances best_arm rewards (Suc j) =
      unknown_round T K means variances best_arm rewards (Suc j) s"
    using s unfolding unknown_state_after_def unknown_pulls_def by auto
  from spec good sel obtain s' where
    s': "unknown_round T K means variances best_arm rewards (Suc j) s = Inr s'"
    and arm: "?pulls ! j < K"
    and good': "length (counts s') = K \<and> length (emp_means s') = K
        \<and> length (emp_vars s') = K \<and> length (M2 s') = K"
    unfolding round_spec_def by (metis sum.inject(2))
  from good have l: "length (counts s) = K" "length (emp_means s) = K"
    "length (emp_vars s) = K" "length (M2 s) = K"
    by simp_all
  have len: "length ?pulls = T"
    by (rule unknown_run(2) [OF assms(1-4)])
  with j(2) have tk: "take (Suc j) ?pulls = take j ?pulls @ [?pulls ! j]"
    by (simp add: take_Suc_conv_app_nth)
  from len j(1) have ltk: "length (take j ?pulls) = j" by simp
  have R: "?R a (Suc j) = ?R a j @ (if ?pulls ! j = a then [rewards (Suc j)] else [])" for a
    unfolding tk arm_rewards_append ltk by simp
  have "\<forall>a<K. counts s' ! a = length (?R a (Suc j))
        \<and> sum_list (?R a (Suc j)) = real (length (?R a (Suc j))) * emp_means s' ! a
        \<and> M2 s' ! a = (\<Sum>x\<leftarrow>?R a (Suc j). (x - emp_means s' ! a) ^ 2)
        \<and> emp_vars s' ! a =
            (if length (?R a (Suc j)) \<le> 1 then 1
             else M2 s' ! a / (real (length (?R a (Suc j))) - 1))"
  proof (intro allI impI)
    fix a assume a: "a < K"
    with inv have i: "counts s ! a = length (?R a j)"
      "sum_list (?R a j) = real (length (?R a j)) * emp_means s ! a"
      "M2 s ! a = (\<Sum>x\<leftarrow>?R a j. (x - emp_means s ! a) ^ 2)"
      "emp_vars s ! a =
         (if length (?R a j) \<le> 1 then 1 else M2 s ! a / (real (length (?R a j)) - 1))"
      by simp_all
    show "counts s' ! a = length (?R a (Suc j))
        \<and> sum_list (?R a (Suc j)) = real (length (?R a (Suc j))) * emp_means s' ! a
        \<and> M2 s' ! a = (\<Sum>x\<leftarrow>?R a (Suc j). (x - emp_means s' ! a) ^ 2)
        \<and> emp_vars s' ! a =
            (if length (?R a (Suc j)) \<le> 1 then 1
             else M2 s' ! a / (real (length (?R a (Suc j))) - 1))"
      by (rule welford_round [OF l sel arm s' a i R])
  qed
  with nxt s' good' show ?case by simp
qed

lemma np_mean_of_sum:
  assumes "sum_list xs = real (length xs) * m" and "xs \<noteq> []"
  shows "np_mean xs = m"
  using assms by (simp add: np_mean_def)

text \<open>
  C2. In a run of \<open>unknown_variance_ucb\<close> with at least one arm, \<open>emp_vars\<close> is 1 for
  every arm before the first round. Round \<open>t\<close> of \<open>1..T\<close> takes the state \<open>s\<close> left by
  the rounds before to \<open>s'\<close>, pulling an arm whose count becomes \<open>n\<close>: with \<open>delta\<close> the
  reward minus the mean in \<open>s\<close>, the mean goes up by \<open>delta / n\<close>, \<open>M2\<close> by \<open>delta\<close>
  times the reward minus the mean in \<open>s'\<close>, and \<open>emp_vars\<close> becomes \<open>M2 / (n - 1)\<close> when
  \<open>n > 1\<close> and is left as it is otherwise, as it is for every other arm. In \<open>s'\<close>, for
  every arm, with \<open>xs\<close> the rewards it has received in the rounds \<open>1..t\<close>: the count is
  the length of \<open>xs\<close>, \<open>emp_vars\<close> is 1 while the count is at most 1, the mean is the mean
  of \<open>xs\<close>, \<open>M2\<close> is the sum of the squared deviations from it, and from the second pull
  on \<open>emp_vars\<close> is the unbiased sample variance of \<open>xs\<close>.
\<close>

theorem welford_variance_estimate:
  assumes "1 \<le> K" and "length means = K" and "length variances = K" and "best_arm < K"
    and "1 \<le> t" and "t \<le> T"
  shows "\<exists>s s' arm. unknown_state_after T K means variances best_arm rewards (t - 1) = Inr s
      \<and> unknown_state_after T K means variances best_arm rewards t = Inr s'
      \<and> unknown_pulls T K means variances best_arm rewards ! (t - 1) = arm \<and> arm < K
      \<and> counts s' ! arm = counts s ! arm + 1
      \<and> emp_means s' ! arm =
          emp_means s ! arm + (rewards t - emp_means s ! arm) / real (counts s' ! arm)
      \<and> M2 s' ! arm =
          M2 s ! arm + (rewards t - emp_means s ! arm) * (rewards t - emp_means s' ! arm)
      \<and> emp_vars s' ! arm =
          (if counts s' ! arm > 1 then M2 s' ! arm / (real (counts s' ! arm) - 1)
           else emp_vars s ! arm)
      \<and> (\<forall>a<K. a \<noteq> arm \<longrightarrow> emp_vars s' ! a = emp_vars s ! a)
      \<and> (\<forall>a<K. emp_vars (init_unknown T K) ! a = 1)
      \<and> (\<forall>a<K.
            counts s' ! a =
              length (arm_rewards a rewards 1
                        (take t (unknown_pulls T K means variances best_arm rewards)))
          \<and> (counts s' ! a \<le> 1 \<longrightarrow> emp_vars s' ! a = 1)
          \<and> (1 \<le> counts s' ! a \<longrightarrow>
                emp_means s' ! a =
                  np_mean (arm_rewards a rewards 1
                             (take t (unknown_pulls T K means variances best_arm rewards))))
          \<and> M2 s' ! a =
              (\<Sum>x\<leftarrow>arm_rewards a rewards 1
                        (take t (unknown_pulls T K means variances best_arm rewards)).
                 (x - np_mean (arm_rewards a rewards 1
                                 (take t (unknown_pulls T K means variances best_arm rewards))))
                 ^ 2)
          \<and> (2 \<le> counts s' ! a \<longrightarrow>
                emp_vars s' ! a =
                  sample_variance
                    (arm_rewards a rewards 1
                       (take t (unknown_pulls T K means variances best_arm rewards)))))"
proof -
  from assms(1) have K: "0 < K" by simp
  let ?pulls = "unknown_pulls T K means variances best_arm rewards"
  let ?R = "\<lambda>a. arm_rewards a rewards 1 (take t ?pulls)"
  have good0: "length (counts (init_unknown T K)) = K \<and> length (emp_means (init_unknown T K)) = K
      \<and> length (emp_vars (init_unknown T K)) = K \<and> length (M2 (init_unknown T K)) = K"
    by (simp add: init_unknown_def)
  have init: "\<forall>a<K. emp_vars (init_unknown T K) ! a = 1"
    by (simp add: init_unknown_def)
  from assms(5) have t1: "t - 1 + 1 = t" by simp
  note spec = unknown_round_spec [OF K assms(2-4), of T rewards]
  from state_before_round [OF spec good0 assms(5,6)]
  obtain s where
    s: "unknown_state_after T K means variances best_arm rewards (t - 1) = Inr s"
      "length (counts s) = K \<and> length (emp_means s) = K
        \<and> length (emp_vars s) = K \<and> length (M2 s) = K"
      "unknown_select T K s = Inr (?pulls ! (t - 1))"
      "unknown_state_after T K means variances best_arm rewards t =
         unknown_round T K means variances best_arm rewards t s"
    unfolding unknown_state_after_def unknown_pulls_def t1 by blast
  define arm where "arm = ?pulls ! (t - 1)"
  from spec s(2) s(3) obtain s' where
    s': "unknown_round T K means variances best_arm rewards t s = Inr s'" and arm: "arm < K"
    unfolding round_spec_def arm_def by (metis sum.inject(2))
  from s(2) have l: "length (counts s) = K" "length (emp_means s) = K"
    "length (emp_vars s) = K" "length (M2 s) = K"
    by simp_all
  note cm = unknown_round_counts_means [OF l s(3) [folded arm_def] arm s']
  note mv = unknown_round_M2 [OF l s(3) [folded arm_def] arm s']
  have mean: "emp_means s' ! arm =
      emp_means s ! arm + (rewards t - emp_means s ! arm) / real (counts s' ! arm)"
    using cm(1,2) by simp
  have var: "emp_vars s' ! arm =
      (if counts s' ! arm > 1 then M2 s' ! arm / (real (counts s' ! arm) - 1)
       else emp_vars s ! arm)"
    unfolding mv(3) cm(1) by simp
  have others: "\<forall>a<K. a \<noteq> arm \<longrightarrow> emp_vars s' ! a = emp_vars s ! a"
    using mv(2) by simp
  from welford_invariant [OF K assms(2-4,6), of rewards] s(4) s'
  have inv: "\<forall>a<K. counts s' ! a = length (?R a)
      \<and> sum_list (?R a) = real (length (?R a)) * emp_means s' ! a
      \<and> M2 s' ! a = (\<Sum>x\<leftarrow>?R a. (x - emp_means s' ! a) ^ 2)
      \<and> emp_vars s' ! a =
          (if length (?R a) \<le> 1 then 1 else M2 s' ! a / (real (length (?R a)) - 1))"
    by simp
  have est: "\<forall>a<K. counts s' ! a = length (?R a)
      \<and> (counts s' ! a \<le> 1 \<longrightarrow> emp_vars s' ! a = 1)
      \<and> (1 \<le> counts s' ! a \<longrightarrow> emp_means s' ! a = np_mean (?R a))
      \<and> M2 s' ! a = (\<Sum>x\<leftarrow>?R a. (x - np_mean (?R a)) ^ 2)
      \<and> (2 \<le> counts s' ! a \<longrightarrow> emp_vars s' ! a = sample_variance (?R a))"
  proof (intro allI impI)
    fix a assume "a < K"
    with inv have i: "counts s' ! a = length (?R a)"
      "sum_list (?R a) = real (length (?R a)) * emp_means s' ! a"
      "M2 s' ! a = (\<Sum>x\<leftarrow>?R a. (x - emp_means s' ! a) ^ 2)"
      "emp_vars s' ! a =
         (if length (?R a) \<le> 1 then 1 else M2 s' ! a / (real (length (?R a)) - 1))"
      by simp_all
    have m: "np_mean (?R a) = emp_means s' ! a" if "?R a \<noteq> []"
      by (rule np_mean_of_sum [OF i(2) that])
    have M: "M2 s' ! a = (\<Sum>x\<leftarrow>?R a. (x - np_mean (?R a)) ^ 2)"
    proof (cases "?R a = []")
      case True
      with i(3) show ?thesis by simp
    next
      case False
      from m [OF False] i(3) show ?thesis by simp
    qed
    have one: "emp_means s' ! a = np_mean (?R a)" if "1 \<le> counts s' ! a"
    proof -
      from that i(1) have "?R a \<noteq> []" by auto
      from m [OF this] show ?thesis by simp
    qed
    have two: "emp_vars s' ! a = sample_variance (?R a)" if "2 \<le> counts s' ! a"
    proof -
      from that i(1) have "\<not> length (?R a) \<le> 1" by simp
      with i(4) have "emp_vars s' ! a = M2 s' ! a / (real (length (?R a)) - 1)" by simp
      with M show ?thesis by (simp add: sample_variance_def)
    qed
    have low: "emp_vars s' ! a = 1" if "counts s' ! a \<le> 1"
      using that i(1,4) by simp
    from i(1) low one M two
    show "counts s' ! a = length (?R a)
      \<and> (counts s' ! a \<le> 1 \<longrightarrow> emp_vars s' ! a = 1)
      \<and> (1 \<le> counts s' ! a \<longrightarrow> emp_means s' ! a = np_mean (?R a))
      \<and> M2 s' ! a = (\<Sum>x\<leftarrow>?R a. (x - np_mean (?R a)) ^ 2)
      \<and> (2 \<le> counts s' ! a \<longrightarrow> emp_vars s' ! a = sample_variance (?R a))"
      by blast
  qed
  from s(1) s(4) s' arm arm_def cm(1) mean cm(3) var others init est
  show ?thesis by (intro exI [of _ s] exI [of _ s'] exI [of _ arm]) simp
qed

theorem welford_variance_estimate_witness:
  "\<exists>s'. unknown_state_after 5 1 [1 / 2] [1] 0 (\<lambda>t. real t) 5 = Inr s'
      \<and> arm_rewards 0 (\<lambda>t. real t) 1
          (take 5 (unknown_pulls 5 1 [1 / 2] [1] 0 (\<lambda>t. real t))) = [1, 2, 3, 4, 5]
      \<and> counts s' ! 0 = 5 \<and> emp_means s' ! 0 = 3 \<and> M2 s' ! 0 = 10 \<and> emp_vars s' ! 0 = 5 / 2"
proof -
  let ?pulls = "unknown_pulls 5 1 [1 / 2] [1] 0 (\<lambda>t. real t)"
  have "length ?pulls = 5"
    by (rule unknown_run(2)) simp_all
  moreover have "\<forall>a\<in>set ?pulls. a < 1"
    by (rule unknown_run(3)) simp_all
  ultimately have "?pulls = replicate 5 0"
    by (intro replicate_eqI) auto
  then have R: "arm_rewards 0 (\<lambda>t. real t) 1 (take 5 ?pulls) = [1, 2, 3, 4, 5]"
    by (simp add: numeral_eq_Suc)
  from welford_variance_estimate [of 1 "[1 / 2]" "[1]" 0 5 5 "\<lambda>t. real t"]
  obtain s' where
    s': "unknown_state_after 5 1 [1 / 2] [1] 0 (\<lambda>t. real t) 5 = Inr s'"
    and est: "counts s' ! 0 = length (arm_rewards 0 (\<lambda>t. real t) 1 (take 5 ?pulls))"
      "1 \<le> counts s' ! 0 \<longrightarrow>
         emp_means s' ! 0 = np_mean (arm_rewards 0 (\<lambda>t. real t) 1 (take 5 ?pulls))"
      "M2 s' ! 0 =
         (\<Sum>x\<leftarrow>arm_rewards 0 (\<lambda>t. real t) 1 (take 5 ?pulls).
            (x - np_mean (arm_rewards 0 (\<lambda>t. real t) 1 (take 5 ?pulls))) ^ 2)"
      "2 \<le> counts s' ! 0 \<longrightarrow>
         emp_vars s' ! 0 = sample_variance (arm_rewards 0 (\<lambda>t. real t) 1 (take 5 ?pulls))"
    by auto
  have m: "np_mean [1, 2, 3, 4, 5] = 3"
    by (simp add: np_mean_def)
  from est have "counts s' ! 0 = 5" "emp_means s' ! 0 = 3" "M2 s' ! 0 = 10"
    "emp_vars s' ! 0 = 5 / 2"
    unfolding R by (simp_all add: m sample_variance_def)
  with s' R show ?thesis by blast
qed

end
